theory Spec2Isabelle
  imports Main
begin

section \<open>The tic-tac-toe engine of tictactoe.js\<close>

subsection \<open>JavaScript values and arrays\<close>

text \<open>
  A board cell holds a number (the cell is empty) or a one-letter string (a player's mark).
  Reading an array out of range gives \<open>undefined\<close>; writing out of range extends the array.
  The skipped positions of an extended array are holes in JavaScript; every operation of this
  program (\<open>filter\<close> on \<open>typeof s === 'number'\<close>, \<open>reduce\<close> on \<open>e === player\<close>, an
  indexed read) treats a hole like \<open>undefined\<close>, so they are padded with \<open>Undefined\<close> here.
  Numbers are the non-negative integers that \<open>Array(9).keys()\<close> produces.
\<close>

datatype jsval = Num nat | Str string | Undefined

type_synonym jsarray = "jsval list"

fun typeof_number :: "jsval \<Rightarrow> bool" where
  "typeof_number (Num n) = True"
| "typeof_number (Str v) = False"
| "typeof_number Undefined = False"

definition js_get :: "jsarray \<Rightarrow> nat \<Rightarrow> jsval" where
  "js_get a i = (if i < length a then a ! i else Undefined)"

definition js_set :: "jsarray \<Rightarrow> nat \<Rightarrow> jsval \<Rightarrow> jsarray" where
  "js_set a i v =
     (if i < length a then a[i := v]
      else a @ replicate (i - length a) Undefined @ [v])"

subsection \<open>Game state variables\<close>

definition huPlayer :: string where
  "huPlayer = ''X''"

definition aiPlayer :: string where
  "aiPlayer = ''O''"

text \<open>
  The text shown in the \<open>message\<close> element. \<open>TurnOf p\<close> is the template of \<open>turn\<close>,
  which names the next player \<open>p\<close>.
\<close>

datatype message = YourTurn | Thinking | TieMsg | YouWin | YouLose | TurnOf string

text \<open>
  \<open>origBoard\<close> is a reference: the address of an array in \<open>heap\<close>. \<open>minimax\<close> receives such
  a reference and writes through it, so the arrays live in an explicit store.
  \<open>winCombos\<close> is the array of win lines; the binding is \<open>const\<close>, the array it names is an
  ordinary array, so its contents are part of the state.
  \<open>nextAddr\<close> is the next unused address, \<open>timers\<close> the number of callbacks that
  \<open>setTimeout\<close> has scheduled and that have not run yet.
\<close>

record state =
  origBoard :: nat
  gameActive :: bool
  winCombos :: "nat list list"
  heap :: "nat \<Rightarrow> jsarray"
  nextAddr :: nat
  message :: message
  timers :: nat

datatype err = OutOfFuel | TypeError

definition board :: "state \<Rightarrow> jsarray" where
  "board s = heap s (origBoard s)"

definition store :: "nat \<Rightarrow> nat \<Rightarrow> jsval \<Rightarrow> state \<Rightarrow> state" where
  "store b i v s = s\<lparr>heap := (heap s)(b := js_set (heap s b) i v)\<rparr>"

subsection \<open>startGame\<close>

definition startGame :: "state \<Rightarrow> state" where
  "startGame s =
     s\<lparr>origBoard := nextAddr s,
       heap := (heap s)(nextAddr s := map Num [0..<9]),
       nextAddr := Suc (nextAddr s),
       gameActive := True,
       message := YourTurn\<rparr>"

text \<open>
  The state after the declarations at the top of the script (lines 1 to 11): \<open>origBoard\<close> is
  declared and not yet assigned, \<open>gameActive\<close> is \<open>true\<close>, and \<open>winCombos\<close> holds the
  eight lines as the source lists them.
\<close>

definition script :: state where
  "script =
     \<lparr>origBoard = 0, gameActive = True,
      winCombos =
        [[0, 1, 2], [3, 4, 5], [6, 7, 8],
         [0, 3, 6], [1, 4, 7], [2, 5, 8],
         [0, 4, 8], [6, 4, 2]],
      heap = (\<lambda>_. []), nextAddr = 0, message = YourTurn, timers = 0\<rparr>"

text \<open>The state in which the script's top-level call of \<open>startGame\<close> leaves the page.\<close>

definition pageLoad :: state where
  "pageLoad = startGame script"

subsection \<open>checkWin, gameOver, emptySquares, checkTie\<close>

record gameWon =
  wonIndex :: nat
  wonPlayer :: string

definition plays :: "jsarray \<Rightarrow> string \<Rightarrow> nat list" where
  "plays a player = filter (\<lambda>i. a ! i = Str player) [0..<length a]"

text \<open>
  \<open>checkWin\<close> reads the global \<open>winCombos\<close>: the model passes the array's current contents as
  the first argument.
\<close>

definition checkWin :: "nat list list \<Rightarrow> jsarray \<Rightarrow> string \<Rightarrow> gameWon option" where
  "checkWin combos a player =
     (case List.find (\<lambda>(index, win). list_all (\<lambda>elem. elem \<in> set (plays a player)) win)
             (enumerate 0 combos) of
        None \<Rightarrow> None
      | Some (index, win) \<Rightarrow> Some \<lparr>wonIndex = index, wonPlayer = player\<rparr>)"

definition gameOver :: "gameWon \<Rightarrow> state \<Rightarrow> state" where
  "gameOver w s =
     s\<lparr>gameActive := False,
       message := (if wonPlayer w = huPlayer then YouWin else YouLose)\<rparr>"

fun numbers :: "jsarray \<Rightarrow> nat list" where
  "numbers [] = []"
| "numbers (Num n # cs) = n # numbers cs"
| "numbers (Str v # cs) = numbers cs"
| "numbers (Undefined # cs) = numbers cs"

text \<open>\<open>emptySquares\<close> has no parameter: it filters the array that \<open>origBoard\<close> refers to.\<close>

definition emptySquares :: "state \<Rightarrow> nat list" where
  "emptySquares s = numbers (heap s (origBoard s))"

definition checkTie :: "state \<Rightarrow> bool \<times> state" where
  "checkTie s =
     (if length (emptySquares s) = 0 then (True, s\<lparr>gameActive := False\<rparr>) else (False, s))"

subsection \<open>minimax\<close>

record move =
  index :: jsval
  score :: int

text \<open>
  The two selection loops. \<open>bestScore\<close> starts at minus or plus infinity (\<open>None\<close>) and
  \<open>bestMove\<close> starts undefined (\<open>None\<close>); \<open>i\<close> is the loop counter.
\<close>

fun maximizer :: "nat \<Rightarrow> move list \<Rightarrow> int option \<Rightarrow> nat option \<Rightarrow> nat option" where
  "maximizer i [] bestScore bestMove = bestMove"
| "maximizer i (m # ms) bestScore bestMove =
     (if (case bestScore of None \<Rightarrow> True | Some b \<Rightarrow> score m > b)
      then maximizer (Suc i) ms (Some (score m)) (Some i)
      else maximizer (Suc i) ms bestScore bestMove)"

fun minimizer :: "nat \<Rightarrow> move list \<Rightarrow> int option \<Rightarrow> nat option \<Rightarrow> nat option" where
  "minimizer i [] bestScore bestMove = bestMove"
| "minimizer i (m # ms) bestScore bestMove =
     (if (case bestScore of None \<Rightarrow> True | Some b \<Rightarrow> score m < b)
      then minimizer (Suc i) ms (Some (score m)) (Some i)
      else minimizer (Suc i) ms bestScore bestMove)"

definition bestMove :: "string \<Rightarrow> move list \<Rightarrow> nat option" where
  "bestMove player moves =
     (if player = aiPlayer then maximizer 0 moves None None
      else minimizer 0 moves None None)"

text \<open>
  The loop that collects one move per available spot. \<open>rec\<close> is the recursive call of
  \<open>minimax\<close> on the same array reference \<open>newBoard\<close>, one frame deeper.
\<close>

fun collect :: "(string \<Rightarrow> state \<Rightarrow> err + move \<times> state) \<Rightarrow> nat \<Rightarrow> string \<Rightarrow>
    nat list \<Rightarrow> move list \<Rightarrow> state \<Rightarrow> err + move list \<times> state" where
  "collect rec newBoard player [] moves s = Inr (moves, s)"
| "collect rec newBoard player (spot # spots) moves s =
     (let idx = js_get (heap s newBoard) spot;
          s1 = store newBoard spot (Str player) s
      in case (if player = aiPlayer then rec huPlayer s1 else rec aiPlayer s1) of
           Inl e \<Rightarrow> Inl e
         | Inr (result, s2) \<Rightarrow>
             collect rec newBoard player spots
               (moves @ [\<lparr>index = idx, score = score result\<rparr>])
               (store newBoard spot idx s2))"

text \<open>
  \<open>minimax\<close> recurses without a bound of its own, so the model carries the number of stack
  frames still available; \<open>Inl OutOfFuel\<close> says the recursion went deeper. A terminal
  result has no \<open>index\<close> property, which reads as \<open>undefined\<close>. \<open>moves[bestMove]\<close> with an
  undefined \<open>bestMove\<close> is \<open>undefined\<close>, whose \<open>score\<close> or \<open>index\<close> the caller cannot read.
\<close>

fun minimax :: "nat \<Rightarrow> nat \<Rightarrow> string \<Rightarrow> state \<Rightarrow> err + move \<times> state" where
  "minimax 0 newBoard player s = Inl OutOfFuel"
| "minimax (Suc fuel) newBoard player s =
     (let availSpots = emptySquares s in
      if checkWin (winCombos s) (heap s newBoard) huPlayer \<noteq> None
        then Inr (\<lparr>index = Undefined, score = - 10\<rparr>, s)
      else if checkWin (winCombos s) (heap s newBoard) aiPlayer \<noteq> None
        then Inr (\<lparr>index = Undefined, score = 10\<rparr>, s)
      else if length availSpots = 0
        then Inr (\<lparr>index = Undefined, score = 0\<rparr>, s)
      else
        (case collect (minimax fuel newBoard) newBoard player availSpots [] s of
           Inl e \<Rightarrow> Inl e
         | Inr (moves, s') \<Rightarrow>
             (case bestMove player moves of
                None \<Rightarrow> Inl TypeError
              | Some i \<Rightarrow> Inr (moves ! i, s'))))"

definition bestSpot :: "nat \<Rightarrow> state \<Rightarrow> err + jsval \<times> state" where
  "bestSpot fuel s =
     (case minimax fuel (origBoard s) aiPlayer s of
        Inl e \<Rightarrow> Inl e
      | Inr (result, s') \<Rightarrow> Inr (index result, s'))"

subsection \<open>turn and turnClick\<close>

text \<open>
  Modelled from the spec: the page (its HTML is not part of the sources) has the nine cells
  of the board, with the ids 0 to 8. \<open>document.getElementById\<close> gives \<open>null\<close> for any
  other id, and \<open>turn\<close> stops with a TypeError when it reads a property of \<open>null\<close>.
\<close>

definition cellExists :: "nat \<Rightarrow> bool" where
  "cellExists n = (n < 9)"

definition turn :: "jsval \<Rightarrow> string \<Rightarrow> state \<Rightarrow> err + state" where
  "turn squareId player s =
     (case squareId of
        Num n \<Rightarrow>
          (let s1 = store (origBoard s) n (Str player) s in
           if \<not> cellExists n then Inl TypeError
           else
             (case checkWin (winCombos s1) (heap s1 (origBoard s1)) player of
                Some w \<Rightarrow> Inr (gameOver w s1)
              | None \<Rightarrow>
                  (case checkTie s1 of
                     (True, s2) \<Rightarrow> Inr (s2\<lparr>message := TieMsg, gameActive := False\<rparr>)
                   | (False, s2) \<Rightarrow>
                       if gameActive s2
                       then Inr (s2\<lparr>message :=
                              TurnOf (if player = huPlayer then aiPlayer else huPlayer)\<rparr>)
                       else Inr s2)))
      | Str v \<Rightarrow> Inl TypeError
      | Undefined \<Rightarrow> Inl TypeError)"

text \<open>
  A click on the cell with id \<open>sq\<close>. An accepted move that leaves the game active schedules
  the callback of the AI's move.
\<close>

definition turnClick :: "nat \<Rightarrow> state \<Rightarrow> err + state" where
  "turnClick sq s =
     (if gameActive s \<and> typeof_number (js_get (heap s (origBoard s)) sq)
      then
        (case turn (Num sq) huPlayer s of
           Inl e \<Rightarrow> Inl e
         | Inr s1 \<Rightarrow>
             if gameActive s1
             then Inr (s1\<lparr>message := Thinking, timers := Suc (timers s1)\<rparr>)
             else Inr s1)
      else Inr s)"

text \<open>The callback that \<open>turnClick\<close> hands to \<open>setTimeout\<close>; it runs once per scheduling.\<close>

definition aiCallback :: "nat \<Rightarrow> state \<Rightarrow> err + state" where
  "aiCallback fuel s =
     (if timers s = 0 then Inr s
      else
        (case bestSpot fuel (s\<lparr>timers := timers s - 1\<rparr>) of
           Inl e \<Rightarrow> Inl e
         | Inr (spot, s1) \<Rightarrow> turn spot aiPlayer s1))"

text \<open>
  The page handles one event at a time: a click on a cell, or a scheduled callback that
  has come due. An uncaught exception ends the run of the model.
\<close>

datatype event = Click nat | Timeout

fun handle :: "nat \<Rightarrow> event \<Rightarrow> state \<Rightarrow> err + state" where
  "handle fuel (Click sq) s = turnClick sq s"
| "handle fuel Timeout s = aiCallback fuel s"

fun run :: "nat \<Rightarrow> event list \<Rightarrow> state \<Rightarrow> err + state" where
  "run fuel [] s = Inr s"
| "run fuel (e # es) s =
     (case handle fuel e s of Inl x \<Rightarrow> Inl x | Inr s' \<Rightarrow> run fuel es s')"

subsection \<open>Notions used in the statements\<close>

text \<open>A win line is marked by a player when each of its three cells holds that player's string.\<close>

definition lineMarked :: "jsarray \<Rightarrow> string \<Rightarrow> nat list \<Rightarrow> bool" where
  "lineMarked a p win = list_all (\<lambda>e. js_get a e = Str p) win"

text \<open>A game whose board array holds the cells \<open>a\<close>.\<close>

definition gameWith :: "jsarray \<Rightarrow> state" where
  "gameWith a = pageLoad\<lparr>heap := (heap pageLoad)(origBoard pageLoad := a)\<rparr>"

text \<open>
  The representation of a board: the cell at index \<open>i\<close> holds the number \<open>i\<close> (the cell is
  empty) or a string (a player's mark).
\<close>

definition validBoard :: "jsarray \<Rightarrow> bool" where
  "validBoard a =
     list_all (\<lambda>(i, c). case c of Num n \<Rightarrow> n = i | Str v \<Rightarrow> True | Undefined \<Rightarrow> False)
       (enumerate 0 a)"

text \<open>
  The board of a game: nine cells, the cell at index \<open>i\<close> holding the number \<open>i\<close> (the cell
  is empty) or the mark of one of the two players.
\<close>

definition gameBoard :: "jsarray \<Rightarrow> bool" where
  "gameBoard a \<longleftrightarrow>
     length a = 9 \<and>
     list_all (\<lambda>(i, c). c = Num i \<or> c = Str huPlayer \<or> c = Str aiPlayer) (enumerate 0 a)"

text \<open>Every number held by \<open>origBoard\<close> is an index of the array at address \<open>b\<close>.\<close>

definition inRange :: "nat \<Rightarrow> state \<Rightarrow> bool" where
  "inRange b s = list_all (\<lambda>n. n < length (heap s b)) (emptySquares s)"

text \<open>
  Position \<open>k\<close> holds the greatest (smallest) score of the list, and every earlier position
  a strictly smaller (greater) one.
\<close>

definition firstMax :: "move list \<Rightarrow> nat \<Rightarrow> bool" where
  "firstMax moves k \<longleftrightarrow>
     k < length moves \<and>
     (\<forall>j < length moves. score (moves ! j) \<le> score (moves ! k)) \<and>
     (\<forall>j < k. score (moves ! j) < score (moves ! k))"

definition firstMin :: "move list \<Rightarrow> nat \<Rightarrow> bool" where
  "firstMin moves k \<longleftrightarrow>
     k < length moves \<and>
     (\<forall>j < length moves. score (moves ! k) \<le> score (moves ! j)) \<and>
     (\<forall>j < k. score (moves ! k) < score (moves ! j))"

text \<open>
  The search as the specification words it (\<open>evaluate\<close>), for a table \<open>w\<close> of win lines:
  every call owns its board, a hypothetical mark is placed on a copy, the opposite player
  moves next, and the candidate for an empty cell records the index of that cell. It is the
  reference that \<open>minimax\<close> is compared with.
\<close>

fun evalAll :: "(jsarray \<Rightarrow> err + move) \<Rightarrow> jsarray \<Rightarrow> string \<Rightarrow> nat list \<Rightarrow> err + move list" where
  "evalAll child a p [] = Inr []"
| "evalAll child a p (n # ns) =
     (case child (a[n := Str p]) of
        Inl e \<Rightarrow> Inl e
      | Inr r \<Rightarrow>
          (case evalAll child a p ns of
             Inl e \<Rightarrow> Inl e
           | Inr ms \<Rightarrow> Inr (\<lparr>index = Num n, score = score r\<rparr> # ms)))"

fun evaluate :: "nat list list \<Rightarrow> nat \<Rightarrow> jsarray \<Rightarrow> string \<Rightarrow> err + move" where
  "evaluate w 0 a p = Inl OutOfFuel"
| "evaluate w (Suc fuel) a p =
     (if checkWin w a huPlayer \<noteq> None then Inr \<lparr>index = Undefined, score = - 10\<rparr>
      else if checkWin w a aiPlayer \<noteq> None then Inr \<lparr>index = Undefined, score = 10\<rparr>
      else if numbers a = [] then Inr \<lparr>index = Undefined, score = 0\<rparr>
      else
        (case evalAll (\<lambda>a'. evaluate w fuel a' (if p = aiPlayer then huPlayer else aiPlayer))
                a p (numbers a) of
           Inl e \<Rightarrow> Inl e
         | Inr moves \<Rightarrow>
             (case bestMove p moves of
                None \<Rightarrow> Inl TypeError
              | Some i \<Rightarrow> Inr (moves ! i))))"

definition withState :: "state \<Rightarrow> err + 'a \<Rightarrow> err + 'a \<times> state" where
  "withState s x = (case x of Inl e \<Rightarrow> Inl e | Inr r \<Rightarrow> Inr (r, s))"

text \<open>
  Two boards for the examples. In \<open>brokenBoard\<close> the empty cells 0 and 1 hold each other's
  number, so the array is not in the game's representation; the AI wins by marking cell 0.
  \<open>tieBoard\<close> has one empty cell, and neither player completes a line by taking it.
\<close>

definition brokenBoard :: jsarray where
  "brokenBoard = [Num 1, Num 0, Str ''X'', Str ''O'', Str ''X'', Str ''X'', Str ''O'', Str ''X'', Str ''O'']"

definition tieBoard :: jsarray where
  "tieBoard = [Str ''X'', Str ''O'', Str ''X'', Str ''X'', Str ''O'', Str ''O'', Str ''O'', Str ''X'', Num 8]"

text \<open>
  The game on board \<open>a\<close> with a second array \<open>c\<close> in the store, at the next unused address:
  an array that \<open>origBoard\<close> does not refer to.
\<close>

definition withCopy :: "jsarray \<Rightarrow> jsarray \<Rightarrow> state" where
  "withCopy a c = (gameWith a)\<lparr>heap := (heap (gameWith a))(nextAddr (gameWith a) := c)\<rparr>"

text \<open>
  A game in which every click is followed by the callback it scheduled before the next click
  arrives, and the number of marks by which the human leads.
\<close>

definition clickThenReply :: "nat \<Rightarrow> nat \<Rightarrow> state \<Rightarrow> err + state" where
  "clickThenReply fuel sq s = run fuel [Click sq, Timeout] s"

fun play :: "nat \<Rightarrow> nat list \<Rightarrow> state \<Rightarrow> err + state" where
  "play fuel [] s = Inr s"
| "play fuel (sq # sqs) s =
     (case clickThenReply fuel sq s of Inl e \<Rightarrow> Inl e | Inr s' \<Rightarrow> play fuel sqs s')"

definition lead :: "state \<Rightarrow> int" where
  "lead s = int (count_list (board s) (Str huPlayer)) - int (count_list (board s) (Str aiPlayer))"

text \<open>
  Between two such rounds no callback is pending, and the counts are level unless the game
  ended on the human's move.
\<close>

definition balanced :: "state \<Rightarrow> bool" where
  "balanced s \<longleftrightarrow>
     validBoard (board s) \<and> timers s = 0 \<and> (lead s = 0 \<or> (lead s = 1 \<and> \<not> gameActive s))"

text \<open>
  The win lines as the specification lists them, in its enumeration order, and win detection
  as it words it: the position of the first line whose three cells are all marked by the
  player.
\<close>

definition winLines :: "(nat \<times> nat \<times> nat) list" where
  "winLines =
     [(0, 1, 2), (3, 4, 5), (6, 7, 8), (0, 3, 6), (1, 4, 7), (2, 5, 8), (0, 4, 8), (2, 4, 6)]"

definition firstLine :: "jsarray \<Rightarrow> string \<Rightarrow> nat option" where
  "firstLine a p =
     map_option fst
       (List.find (\<lambda>(k, (x, y, z)). js_get a x = Str p \<and> js_get a y = Str p \<and> js_get a z = Str p)
          (enumerate 0 winLines))"

section \<open>Win detection\<close>

lemma mem_plays: "e \<in> set (plays a p) \<longleftrightarrow> js_get a e = Str p"
  by (auto simp: plays_def js_get_def)

lemma every_plays: "list_all (\<lambda>elem. elem \<in> set (plays a p)) win = lineMarked a p win"
  by (simp add: mem_plays lineMarked_def)

lemma checkWin_find:
  "checkWin cs a p = map_option (\<lambda>(i, w). \<lparr>wonIndex = i, wonPlayer = p\<rparr>)
     (List.find (\<lambda>(i, w). lineMarked a p w) (enumerate 0 cs))"
  by (simp add: checkWin_def every_plays split: option.splits)

lemma checkWin_None_iff:
  "checkWin cs a p = None \<longleftrightarrow> (\<forall>k < length cs. \<not> lineMarked a p (cs ! k))"
  by (auto simp: checkWin_find find_None_iff in_set_conv_nth nth_enumerate_eq)

lemma checkWin_SomeD:
  assumes "checkWin cs a p = Some w"
  shows "wonPlayer w = p \<and> wonIndex w < length cs \<and>
    lineMarked a p (cs ! wonIndex w) \<and>
    (\<forall>j < wonIndex w. \<not> lineMarked a p (cs ! j))"
proof -
  from assms obtain i win
    where f: "List.find (\<lambda>(i, w). lineMarked a p w) (enumerate 0 cs) = Some (i, win)"
      and w: "w = \<lparr>wonIndex = i, wonPlayer = p\<rparr>"
    by (auto simp: checkWin_find)
  from f obtain k
    where "k < length cs" "lineMarked a p (cs ! k)" "(i, win) = (k, cs ! k)"
      and "\<forall>j<k. \<not> lineMarked a p (cs ! j)"
    by (auto simp: find_Some_iff nth_enumerate_eq)
  with w show ?thesis by simp
qed

section \<open>Evaluation on concrete games\<close>

lemma fresh_board:
  "map Num [0..<9] = [Num 0, Num 1, Num 2, Num 3, Num 4, Num 5, Num 6, Num 7, Num 8]"
  by code_simp

lemmas eval_defs = pageLoad_def startGame_def gameWith_def turnClick_def turn_def store_def
  js_get_def js_set_def cellExists_def checkWin_def plays_def script_def checkTie_def
  emptySquares_def huPlayer_def aiPlayer_def board_def bestSpot_def bestMove_def gameOver_def
  fresh_board Let_def

lemma winCombos_pageLoad:
  "winCombos pageLoad =
     [[0, 1, 2], [3, 4, 5], [6, 7, 8], [0, 3, 6], [1, 4, 7], [2, 5, 8], [0, 4, 8], [6, 4, 2]]"
  by (simp add: pageLoad_def startGame_def script_def)

lemma winCombos_gameWith [simp]: "winCombos (gameWith a) = winCombos pageLoad"
  by (simp add: gameWith_def)

lemma numbers_Nil_iff: "numbers a = [] \<longleftrightarrow> \<not> list_ex typeof_number a"
  by (induction a rule: numbers.induct) auto

section \<open>The representation of boards\<close>

lemma validBoard_iff:
  "validBoard a \<longleftrightarrow> (\<forall>i < length a. a ! i = Num i \<or> (\<exists>v. a ! i = Str v))"
proof -
  have "(case c of Num n \<Rightarrow> n = i | Str v \<Rightarrow> True | Undefined \<Rightarrow> False) \<longleftrightarrow>
      (c = Num i \<or> (\<exists>v. c = Str v))" for c i
    by (cases c) auto
  then show ?thesis
    by (simp add: validBoard_def list_all_length nth_enumerate_eq)
qed

lemma numbers_filter:
  "numbers a = map (\<lambda>c. case c of Num n \<Rightarrow> n | _ \<Rightarrow> 0) (filter typeof_number a)"
  by (induction a rule: numbers.induct) auto

lemma numbers_append: "numbers (a @ b) = numbers a @ numbers b"
  by (induction a rule: numbers.induct) auto

lemma set_numbers: "set (numbers a) = {n. Num n \<in> set a}"
  by (induction a rule: numbers.induct) auto

lemma numbers_valid_upt:
  "validBoard a \<Longrightarrow> numbers a = filter (\<lambda>i. a ! i = Num i) [0..<length a]"
proof (induction a rule: rev_induct)
  case Nil
  then show ?case by simp
next
  case (snoc c a)
  from snoc.prems have va: "validBoard a" and c: "c = Num (length a) \<or> (\<exists>v. c = Str v)"
    by (auto simp: validBoard_iff nth_append split: if_splits)
  have eq: "filter (\<lambda>i. (a @ [c]) ! i = Num i) [0..<length a] = filter (\<lambda>i. a ! i = Num i) [0..<length a]"
    by (rule filter_cong) (auto simp: nth_append)
  from c show ?case
    using snoc.IH[OF va] eq by (auto simp: numbers_append)
qed

lemma valid_mem_numbers:
  "validBoard a \<Longrightarrow> n \<in> set (numbers a) \<longleftrightarrow> n < length a \<and> a ! n = Num n"
  by (auto simp: numbers_valid_upt)

lemma valid_sorted_numbers: "validBoard a \<Longrightarrow> sorted_wrt (<) (numbers a)"
  by (simp add: numbers_valid_upt sorted_wrt_filter)

lemma valid_distinct_numbers: "validBoard a \<Longrightarrow> distinct (numbers a)"
  by (simp add: numbers_valid_upt)

lemma nth_update_mark:
  "i < length a \<Longrightarrow> a[n := Str v] ! i = (if i = n then Str v else a ! i)"
  by (cases "i = n") auto

lemma valid_update: "validBoard a \<Longrightarrow> validBoard (a[n := Str v])"
  by (auto simp: validBoard_iff nth_update_mark)

lemma numbers_update_mark:
  "validBoard a \<Longrightarrow> numbers (a[n := Str v]) = filter (\<lambda>i. i \<noteq> n) (numbers a)"
  by (auto simp: numbers_valid_upt valid_update nth_update_mark intro!: filter_cong
      split: if_splits)

lemma length_numbers_update:
  assumes "validBoard a" "n \<in> set (numbers a)"
  shows "length (numbers (a[n := Str v])) < length (numbers a)"
proof -
  have "length (filter (\<lambda>i. i \<noteq> n) (numbers a)) < length (numbers a)"
    using assms(2) by (intro length_filter_less[of n]) auto
  with assms(1) show ?thesis by (simp add: numbers_update_mark)
qed

section \<open>The selection loops\<close>

lemma maximizer_step:
  assumes "firstMax pre k"
  shows "\<exists>k'. maximizer (length pre) ms (Some (score (pre ! k))) (Some k) = Some k' \<and>
    firstMax (pre @ ms) k'"
  using assms
proof (induction ms arbitrary: pre k)
  case Nil
  then show ?case by simp
next
  case (Cons m ms)
  show ?case
  proof (cases "score m > score (pre ! k)")
    case True
    with Cons.prems have fm: "firstMax (pre @ [m]) (length pre)"
      by (fastforce simp: firstMax_def nth_append)
    from Cons.IH[OF fm] True show ?thesis by simp
  next
    case False
    with Cons.prems have fm: "firstMax (pre @ [m]) k"
      by (auto simp: firstMax_def nth_append less_Suc_eq)
    from Cons.prems have "k < length pre" by (simp add: firstMax_def)
    with Cons.IH[OF fm] False show ?thesis by (simp add: nth_append)
  qed
qed

lemma minimizer_step:
  assumes "firstMin pre k"
  shows "\<exists>k'. minimizer (length pre) ms (Some (score (pre ! k))) (Some k) = Some k' \<and>
    firstMin (pre @ ms) k'"
  using assms
proof (induction ms arbitrary: pre k)
  case Nil
  then show ?case by simp
next
  case (Cons m ms)
  show ?case
  proof (cases "score m < score (pre ! k)")
    case True
    with Cons.prems have fm: "firstMin (pre @ [m]) (length pre)"
      by (fastforce simp: firstMin_def nth_append)
    from Cons.IH[OF fm] True show ?thesis by simp
  next
    case False
    with Cons.prems have fm: "firstMin (pre @ [m]) k"
      by (auto simp: firstMin_def nth_append less_Suc_eq)
    from Cons.prems have "k < length pre" by (simp add: firstMin_def)
    with Cons.IH[OF fm] False show ?thesis by (simp add: nth_append)
  qed
qed

lemma bestMove_ai:
  assumes "moves \<noteq> []"
  shows "\<exists>k. bestMove aiPlayer moves = Some k \<and> firstMax moves k"
proof -
  from assms obtain m ms where moves: "moves = m # ms" by (cases moves) auto
  have "firstMax [m] 0" by (simp add: firstMax_def)
  from maximizer_step[OF this, of ms] show ?thesis
    by (simp add: bestMove_def moves)
qed

lemma bestMove_other:
  assumes "moves \<noteq> []" "p \<noteq> aiPlayer"
  shows "\<exists>k. bestMove p moves = Some k \<and> firstMin moves k"
proof -
  from assms obtain m ms where moves: "moves = m # ms" by (cases moves) auto
  have "firstMin [m] 0" by (simp add: firstMin_def)
  from minimizer_step[OF this, of ms] assms(2) show ?thesis
    by (simp add: bestMove_def moves)
qed

lemma bestMove_Some:
  assumes "moves \<noteq> []"
  shows "\<exists>k < length moves. bestMove p moves = Some k"
proof (cases "p = aiPlayer")
  case True
  with bestMove_ai[OF assms] show ?thesis by (auto simp: firstMax_def)
next
  case False
  from bestMove_other[OF assms False] show ?thesis by (auto simp: firstMin_def)
qed

lemma bestMove_optimum:
  assumes "moves \<noteq> []"
  shows "\<exists>k. bestMove p moves = Some k \<and>
    (if p = aiPlayer then firstMax moves k else firstMin moves k)"
proof (cases "p = aiPlayer")
  case True
  with bestMove_ai[OF assms] show ?thesis by simp
next
  case False
  with bestMove_other[OF assms False] show ?thesis by simp
qed

section \<open>Placements are undone\<close>

lemma winCombos_store [simp]: "winCombos (store b i v s) = winCombos s"
  by (simp add: store_def)

lemma origBoard_store [simp]: "origBoard (store b i v s) = origBoard s"
  by (simp add: store_def)

lemma heap_store_same [simp]: "heap (store b i v s) b = js_set (heap s b) i v"
  by (simp add: store_def)

lemma heap_store_other [simp]: "c \<noteq> b \<Longrightarrow> heap (store b i v s) c = heap s c"
  by (simp add: store_def)

lemma length_js_set [simp]: "i < length a \<Longrightarrow> length (js_set a i v) = length a"
  by (simp add: js_set_def)

lemma js_set_in_range: "i < length a \<Longrightarrow> js_set a i v = a[i := v]"
  by (simp add: js_set_def)

lemma store_restore:
  assumes "i < length (heap s b)"
  shows "store b i (js_get (heap s b) i) (store b i v s) = s"
  using assms by (simp add: store_def js_set_def js_get_def)

lemma set_numbers_update: "set (numbers (a[i := Str v])) \<subseteq> set (numbers a)"
proof -
  have "Num n \<in> set (a[i := Str v]) \<Longrightarrow> Num n \<in> set a" for n
    using set_update_subset_insert[of a i "Str v"] by auto
  then show ?thesis by (auto simp: set_numbers)
qed

lemma inRange_store:
  assumes "inRange b s" "i < length (heap s b)"
  shows "inRange b (store b i (Str v) s)"
proof (cases "origBoard s = b")
  case True
  with assms set_numbers_update[of "heap s b" i v] show ?thesis
    by (auto simp: inRange_def list_all_iff emptySquares_def js_set_in_range)
next
  case False
  with assms show ?thesis
    by (auto simp: inRange_def list_all_iff emptySquares_def)
qed

lemma frame_collect:
  assumes rec: "\<And>q t r t'. inRange b t \<Longrightarrow> rec q t = Inr (r, t') \<Longrightarrow> t' = t"
    and "inRange b s" "\<forall>n \<in> set spots. n < length (heap s b)"
    and "collect rec b p spots moves s = Inr (ms, s')"
  shows "s' = s \<and> length ms = length moves + length spots"
  using assms(2-)
proof (induction spots arbitrary: moves)
  case Nil
  then show ?case by simp
next
  case (Cons spot spots)
  let ?s1 = "store b spot (Str p) s"
  let ?q = "if p = aiPlayer then huPlayer else aiPlayer"
  from Cons.prems have spot: "spot < length (heap s b)" by simp
  from Cons.prems(3) obtain result s2 where r: "rec ?q ?s1 = Inr (result, s2)"
    and c: "collect rec b p spots (moves @ [\<lparr>index = js_get (heap s b) spot, score = score result\<rparr>])
              (store b spot (js_get (heap s b) spot) s2) = Inr (ms, s')"
    by (auto simp: Let_def split: sum.splits if_splits)
  from rec[OF inRange_store[OF Cons.prems(1) spot] r] have "s2 = ?s1" .
  with c store_restore[OF spot] have
    "collect rec b p spots (moves @ [\<lparr>index = js_get (heap s b) spot, score = score result\<rparr>]) s = Inr (ms, s')"
    by simp
  from Cons.IH[OF Cons.prems(1) _ this] Cons.prems(2) show ?case by simp
qed

lemma frame_minimax:
  "inRange b s \<Longrightarrow> minimax fuel b p s = Inr (r, s') \<Longrightarrow> s' = s"
proof (induction fuel arbitrary: p s r s')
  case 0
  then show ?case by simp
next
  case (Suc fuel)
  show ?case
  proof (cases "checkWin (winCombos s) (heap s b) huPlayer \<noteq> None \<or> checkWin (winCombos s) (heap s b) aiPlayer \<noteq> None
      \<or> emptySquares s = []")
    case True
    with Suc.prems(2) show ?thesis by (auto simp: Let_def split: if_splits)
  next
    case False
    with Suc.prems(2) obtain moves where
      c: "collect (minimax fuel b) b p (emptySquares s) [] s = Inr (moves, s')"
      by (auto simp: Let_def split: sum.splits option.splits)
    from Suc.prems(1) have "\<forall>n \<in> set (emptySquares s). n < length (heap s b)"
      by (simp add: inRange_def list_all_iff)
    from frame_collect[of b "minimax fuel b", OF Suc.IH Suc.prems(1) this c]
    show ?thesis by simp
  qed
qed

section \<open>minimax on the game's own board computes evaluate\<close>

lemma withState_simps [simp]:
  "withState s (Inl e) = Inl e" "withState s (Inr r) = Inr (r, s)"
  by (simp_all add: withState_def)

lemma board_store [simp]:
  "i < length (board s) \<Longrightarrow> board (store (origBoard s) i v s) = (board s)[i := v]"
  by (simp add: board_def js_set_in_range)

lemma collect_Cons:
  "collect rec b p (spot # spots) moves s =
     (case rec (if p = aiPlayer then huPlayer else aiPlayer) (store b spot (Str p) s) of
        Inl e \<Rightarrow> Inl e
      | Inr (result, s2) \<Rightarrow>
          collect rec b p spots
            (moves @ [\<lparr>index = js_get (heap s b) spot, score = score result\<rparr>])
            (store b spot (js_get (heap s b) spot) s2))"
  by (simp add: Let_def)

lemma collect_refines:
  assumes rec: "\<And>q t. validBoard (board t) \<Longrightarrow> origBoard t = b \<Longrightarrow>
      winCombos t = winCombos s \<Longrightarrow> rec q t = withState t (child q (board t))"
    and "validBoard (board s)" "origBoard s = b" "set spots \<subseteq> set (numbers (board s))"
  shows "collect rec b p spots moves s =
    (case evalAll (child (if p = aiPlayer then huPlayer else aiPlayer)) (board s) p spots of
       Inl e \<Rightarrow> Inl e
     | Inr ms \<Rightarrow> Inr (moves @ ms, s))"
  using assms(4)
proof (induction spots arbitrary: moves)
  case Nil
  then show ?case by simp
next
  case (Cons spot spots)
  let ?s1 = "store b spot (Str p) s"
  let ?q = "if p = aiPlayer then huPlayer else aiPlayer"
  from Cons.prems assms(2) have spot: "spot < length (board s)" and num: "board s ! spot = Num spot"
    by (auto simp: valid_mem_numbers)
  from spot assms(3) have spot': "spot < length (heap s b)" by (simp add: board_def)
  from num spot have idx: "js_get (heap s b) spot = Num spot"
    using assms(3) by (simp add: js_get_def board_def)
  have b1: "board ?s1 = (board s)[spot := Str p]"
    using spot assms(3) by auto
  have v1: "validBoard (board ?s1)"
    using assms(2) by (simp add: b1 valid_update)
  have r: "rec ?q ?s1 = withState ?s1 (child ?q ((board s)[spot := Str p]))"
    using rec[OF v1, of ?q] assms(3) by (simp add: b1)
  have restore: "store b spot (Num spot) ?s1 = s"
    using store_restore[OF spot', of "Str p"] idx by simp
  show ?case
  proof (cases "child ?q ((board s)[spot := Str p])")
    case (Inl e)
    with r show ?thesis by (subst collect_Cons) (simp del: collect.simps)
  next
    case (Inr result)
    from Cons.prems have "set spots \<subseteq> set (numbers (board s))" by simp
    from Cons.IH[OF this, of "moves @ [\<lparr>index = Num spot, score = score result\<rparr>]"] r Inr idx restore
    show ?thesis
      by (subst collect_Cons) (simp del: collect.simps split: sum.splits)
  qed
qed

lemma minimax_refines:
  "validBoard (board s) \<Longrightarrow>
   minimax fuel (origBoard s) p s = withState s (evaluate (winCombos s) fuel (board s) p)"
proof (induction fuel arbitrary: p s)
  case 0
  then show ?case by simp
next
  case (Suc fuel)
  let ?b = "origBoard s"
  define E where "E = evalAll (\<lambda>a'. evaluate (winCombos s) fuel a' (if p = aiPlayer then huPlayer else aiPlayer))
    (board s) p (numbers (board s))"
  have "collect (minimax fuel ?b) ?b p (numbers (board s)) [] s =
    (case evalAll (\<lambda>a'. evaluate (winCombos s) fuel a' (if p = aiPlayer then huPlayer else aiPlayer))
        (board s) p (numbers (board s)) of
       Inl e \<Rightarrow> Inl e
     | Inr ms \<Rightarrow> Inr ([] @ ms, s))"
  proof (rule collect_refines[where child = "\<lambda>q a'. evaluate (winCombos s) fuel a' q"])
    fix q t
    assume "validBoard (board t)" "origBoard t = ?b" "winCombos t = winCombos s"
    with Suc.IH[of t q] show "minimax fuel ?b q t = withState t (evaluate (winCombos s) fuel (board t) q)"
      by simp
  qed (use Suc.prems in simp_all)
  then have c: "collect (minimax fuel ?b) ?b p (numbers (board s)) [] s =
    (case E of Inl e \<Rightarrow> Inl e | Inr ms \<Rightarrow> Inr (ms, s))"
    by (simp add: E_def cong: sum.case_cong)
  have lhs: "minimax (Suc fuel) ?b p s =
    (if checkWin (winCombos s) (board s) huPlayer \<noteq> None then Inr (\<lparr>index = Undefined, score = - 10\<rparr>, s)
     else if checkWin (winCombos s) (board s) aiPlayer \<noteq> None then Inr (\<lparr>index = Undefined, score = 10\<rparr>, s)
     else if numbers (board s) = [] then Inr (\<lparr>index = Undefined, score = 0\<rparr>, s)
     else (case E of
         Inl e \<Rightarrow> Inl e
       | Inr ms \<Rightarrow> (case bestMove p ms of None \<Rightarrow> Inl TypeError | Some i \<Rightarrow> Inr (ms ! i, s))))"
    using c by (simp add: Let_def emptySquares_def board_def split: sum.splits)
  have rhs: "evaluate (winCombos s) (Suc fuel) (board s) p =
    (if checkWin (winCombos s) (board s) huPlayer \<noteq> None then Inr \<lparr>index = Undefined, score = - 10\<rparr>
     else if checkWin (winCombos s) (board s) aiPlayer \<noteq> None then Inr \<lparr>index = Undefined, score = 10\<rparr>
     else if numbers (board s) = [] then Inr \<lparr>index = Undefined, score = 0\<rparr>
     else (case E of
         Inl e \<Rightarrow> Inl e
       | Inr ms \<Rightarrow> (case bestMove p ms of None \<Rightarrow> Inl TypeError | Some i \<Rightarrow> Inr (ms ! i))))"
    by (simp add: E_def)
  show ?case
    unfolding lhs rhs by (simp split: sum.splits option.splits)
qed

section \<open>The search returns\<close>

lemma evalAll_returns:
  assumes "\<forall>n \<in> set spots. \<exists>r. child (a[n := Str p]) = Inr r"
  shows "\<exists>ms. evalAll child a p spots = Inr ms \<and> map index ms = map Num spots"
  using assms
proof (induction spots)
  case Nil
  then show ?case by simp
next
  case (Cons n ns)
  then obtain r ms where "child (a[n := Str p]) = Inr r" "evalAll child a p ns = Inr ms"
    "map index ms = map Num ns"
    by auto
  then show ?case by simp
qed

lemma evalAll_scores:
  assumes "evalAll child a p spots = Inr ms"
  shows "length ms = length spots \<and>
    (\<forall>j < length spots. \<exists>r. child (a[spots ! j := Str p]) = Inr r \<and>
       ms ! j = \<lparr>index = Num (spots ! j), score = score r\<rparr>)"
  using assms
proof (induction spots arbitrary: ms)
  case Nil
  then show ?case by simp
next
  case (Cons n ns)
  from Cons.prems obtain r ms' where r: "child (a[n := Str p]) = Inr r"
    and ms': "evalAll child a p ns = Inr ms'" and ms: "ms = \<lparr>index = Num n, score = score r\<rparr> # ms'"
    by (auto split: sum.splits)
  from Cons.IH[OF ms'] r ms show ?case
    by (auto simp: nth_Cons split: nat.splits)
qed

lemma evaluate_returns:
  "validBoard a \<Longrightarrow> length (numbers a) \<le> fuel \<Longrightarrow> \<exists>r. evaluate w (Suc fuel) a p = Inr r"
proof (induction fuel arbitrary: a p)
  case 0
  then show ?case by simp
next
  case (Suc fuel)
  let ?q = "if p = aiPlayer then huPlayer else aiPlayer"
  have "\<forall>n \<in> set (numbers a). \<exists>r. evaluate w (Suc fuel) (a[n := Str p]) ?q = Inr r"
  proof
    fix n assume n: "n \<in> set (numbers a)"
    from length_numbers_update[OF Suc.prems(1) n, of p] Suc.prems(2)
    have "length (numbers (a[n := Str p])) \<le> fuel" by simp
    from Suc.IH[OF valid_update[OF Suc.prems(1)] this]
    show "\<exists>r. evaluate w (Suc fuel) (a[n := Str p]) ?q = Inr r" .
  qed
  from evalAll_returns[of "numbers a" "\<lambda>a'. evaluate w (Suc fuel) a' ?q" a p, OF this]
  obtain ms where ms: "evalAll (\<lambda>a'. evaluate w (Suc fuel) a' ?q) a p (numbers a) = Inr ms"
    and idx: "map index ms = map Num (numbers a)"
    by blast
  show ?case
  proof (cases "numbers a = []")
    case True
    then show ?thesis by (simp del: evaluate.simps(2) add: evaluate.simps(2)[of _ "Suc fuel"])
  next
    case False
    with idx have "ms \<noteq> []" by auto
    from bestMove_Some[OF this, of p] obtain k where "bestMove p ms = Some k" by blast
    with ms show ?thesis
      by (simp del: evaluate.simps(2) add: evaluate.simps(2)[of _ "Suc fuel"])
  qed
qed

lemma valid_inRange: "validBoard (board s) \<Longrightarrow> inRange (origBoard s) s"
  by (auto simp: inRange_def list_all_iff emptySquares_def board_def valid_mem_numbers)

lemma minimax_returns:
  assumes "validBoard (board s)" "length (emptySquares s) \<le> fuel"
  shows "\<exists>r. minimax (Suc fuel) (origBoard s) p s = Inr (r, s)"
proof -
  from assms have "length (numbers (board s)) \<le> fuel"
    by (simp add: emptySquares_def board_def)
  from evaluate_returns[OF assms(1) this, of "winCombos s" p] obtain r
    where "evaluate (winCombos s) (Suc fuel) (board s) p = Inr r" by blast
  with minimax_refines[OF assms(1), of "Suc fuel" p] show ?thesis
    by (simp del: minimax.simps evaluate.simps)
qed

lemma collect_valid:
  assumes "validBoard (board s)" "length (emptySquares s) \<le> fuel" "emptySquares s \<noteq> []"
  shows "\<exists>ms. collect (minimax fuel (origBoard s)) (origBoard s) p (emptySquares s) [] s = Inr (ms, s) \<and>
    map index ms = map Num (emptySquares s) \<and>
    evalAll (\<lambda>a'. evaluate (winCombos s) fuel a' (if p = aiPlayer then huPlayer else aiPlayer))
      (board s) p (emptySquares s) = Inr ms"
proof -
  let ?q = "if p = aiPlayer then huPlayer else aiPlayer"
  let ?a = "board s"
  have es: "emptySquares s = numbers ?a" by (simp add: emptySquares_def board_def)
  from assms(2,3) obtain f where fuel: "fuel = Suc f" by (cases fuel) auto
  have "\<forall>n \<in> set (numbers ?a). \<exists>r. evaluate (winCombos s) fuel (?a[n := Str p]) ?q = Inr r"
  proof
    fix n assume n: "n \<in> set (numbers ?a)"
    from length_numbers_update[OF assms(1) n, of p] assms(2)
    have "length (numbers (?a[n := Str p])) \<le> f" by (simp add: es fuel)
    from evaluate_returns[OF valid_update[OF assms(1)] this]
    show "\<exists>r. evaluate (winCombos s) fuel (?a[n := Str p]) ?q = Inr r" by (simp only: fuel)
  qed
  from evalAll_returns[of "numbers ?a" "\<lambda>a'. evaluate (winCombos s) fuel a' ?q" ?a p, OF this]
  obtain ms where ms: "evalAll (\<lambda>a'. evaluate (winCombos s) fuel a' ?q) ?a p (numbers ?a) = Inr ms"
    and idx: "map index ms = map Num (numbers ?a)"
    by blast
  have "collect (minimax fuel (origBoard s)) (origBoard s) p (numbers ?a) [] s =
    (case evalAll (\<lambda>a'. evaluate (winCombos s) fuel a' ?q) ?a p (numbers ?a) of
       Inl e \<Rightarrow> Inl e
     | Inr ms \<Rightarrow> Inr ([] @ ms, s))"
  proof (rule collect_refines[where child = "\<lambda>q a'. evaluate (winCombos s) fuel a' q"])
    fix q t
    assume "validBoard (board t)" "origBoard t = origBoard s" "winCombos t = winCombos s"
    with minimax_refines[of t fuel q]
    show "minimax fuel (origBoard s) q t = withState t (evaluate (winCombos s) fuel (board t) q)"
      by simp
  qed (use assms(1) in simp_all)
  with ms idx show ?thesis by (simp add: es)
qed

section \<open>The index that minimax records\<close>

lemma collect_length:
  "collect rec b p spots moves s = Inr (ms, s') \<Longrightarrow> length ms = length moves + length spots"
proof (induction spots arbitrary: moves s)
  case Nil
  then show ?case by simp
next
  case (Cons spot spots)
  from Cons.prems have "\<exists>sc s2.
    collect rec b p spots (moves @ [\<lparr>index = js_get (heap s b) spot, score = sc\<rparr>])
       (store b spot (js_get (heap s b) spot) s2) = Inr (ms, s')"
    by (subst (asm) collect_Cons) (auto split: sum.splits simp del: collect.simps)
  then obtain sc s2 where
    "collect rec b p spots (moves @ [\<lparr>index = js_get (heap s b) spot, score = sc\<rparr>])
       (store b spot (js_get (heap s b) spot) s2) = Inr (ms, s')"
    by blast
  from Cons.IH[OF this] show ?case by simp
qed

lemma evaluate_index:
  assumes "evaluate w (Suc f) a p = Inr r"
  shows "index r = Undefined \<or>
    (\<exists>n \<in> set (numbers a). index r = Num n \<and>
       (\<exists>c. evaluate w f (a[n := Str p]) (if p = aiPlayer then huPlayer else aiPlayer) = Inr c \<and>
          score r = score c))"
proof (cases "checkWin w a huPlayer \<noteq> None \<or> checkWin w a aiPlayer \<noteq> None \<or> numbers a = []")
  case True
  with assms show ?thesis by (auto split: if_splits)
next
  case False
  let ?q = "if p = aiPlayer then huPlayer else aiPlayer"
  from False assms obtain ms k where ms: "evalAll (\<lambda>a'. evaluate w f a' ?q) a p (numbers a) = Inr ms"
    and k: "bestMove p ms = Some k" and r: "r = ms ! k"
    by (auto split: sum.splits option.splits)
  from False evalAll_scores[OF ms] have "ms \<noteq> []" by auto
  from bestMove_Some[OF this, of p] k have "k < length ms" by auto
  with evalAll_scores[OF ms] r show ?thesis
    by (metis move.select_convs(1,2) nth_mem)
qed

lemma wc_origBoard [simp]: "origBoard (withCopy a c) = 0"
  by (simp add: withCopy_def gameWith_def pageLoad_def startGame_def script_def)

lemma wc_winCombos [simp]: "winCombos (withCopy a c) = winCombos pageLoad"
  by (simp add: withCopy_def)

lemma wc_heap_copy [simp]: "heap (withCopy a c) (Suc 0) = c"
  by (simp add: withCopy_def gameWith_def pageLoad_def startGame_def script_def)

lemma wc_heap_board [simp]: "heap (withCopy a c) 0 = a"
  by (simp add: withCopy_def gameWith_def pageLoad_def startGame_def script_def)

lemma wc_store [simp]: "store (Suc 0) i v (withCopy a c) = withCopy a (js_set c i v)"
  by (simp add: withCopy_def gameWith_def pageLoad_def startGame_def script_def store_def)

lemma copy_never_returns:
  assumes "p = huPlayer \<or> p = aiPlayer" "c = Num 8 \<or> c = Str huPlayer \<or> c = Str aiPlayer"
  shows "minimax fuel (Suc 0) p (withCopy tieBoard (tieBoard[8 := c])) = Inl OutOfFuel"
  using assms
proof (induction fuel arbitrary: p c)
  case 0
  then show ?case by simp
next
  case (Suc fuel)
  let ?q = "if p = aiPlayer then huPlayer else aiPlayer"
  have nowin: "checkWin (winCombos pageLoad) (tieBoard[8 := c]) huPlayer = None" "checkWin (winCombos pageLoad) (tieBoard[8 := c]) aiPlayer = None"
    using Suc.prems(2)
    by (auto simp: tieBoard_def checkWin_def plays_def winCombos_pageLoad huPlayer_def aiPlayer_def)
  have es: "emptySquares (withCopy tieBoard (tieBoard[8 := c])) = [8]"
    by (simp add: emptySquares_def) (simp add: tieBoard_def)
  have set8: "js_set (tieBoard[8 := c]) 8 (Str p) = tieBoard[8 := Str p]"
    by (simp add: js_set_def tieBoard_def)
  have "?q = huPlayer \<or> ?q = aiPlayer" by simp
  moreover from Suc.prems(1) have "Str p = Num 8 \<or> Str p = Str huPlayer \<or> Str p = Str aiPlayer"
    by auto
  ultimately have ih: "minimax fuel (Suc 0) ?q (withCopy tieBoard (tieBoard[8 := Str p])) = Inl OutOfFuel"
    by (rule Suc.IH)
  have "collect (minimax fuel (Suc 0)) (Suc 0) p [8] [] (withCopy tieBoard (tieBoard[8 := c])) = Inl OutOfFuel"
    by (subst collect_Cons) (simp del: collect.simps add: set8 ih)
  with nowin es show ?case by (simp add: Let_def)
qed

lemma valid_fresh: "validBoard (map Num [0..<9])"
  by (simp add: validBoard_iff)

lemma turn_board:
  assumes "turn (Num n) p s = Inr s'" "n < length (board s)"
  shows "origBoard s' = origBoard s \<and> board s' = (board s)[n := Str p]"
  using assms
  by (auto simp: turn_def Let_def checkTie_def gameOver_def board_def js_set_in_range
      split: if_splits option.splits)

lemma turnClick_valid:
  assumes "validBoard (board s)" "turnClick sq s = Inr s'"
  shows "validBoard (board s')"
proof (cases "gameActive s \<and> typeof_number (js_get (board s) sq)")
  case False
  with assms show ?thesis by (auto simp: turnClick_def board_def)
next
  case True
  then have sq: "sq < length (board s)"
    by (auto simp: js_get_def split: if_splits)
  from True assms(2) obtain s1 where t: "turn (Num sq) huPlayer s = Inr s1"
    and s': "s' = s1 \<or> s' = s1\<lparr>message := Thinking, timers := Suc (timers s1)\<rparr>"
    by (auto simp: turnClick_def board_def split: sum.splits if_splits)
  from turn_board[OF t sq] assms(1) have "validBoard (board s1)"
    by (simp add: valid_update)
  with s' show ?thesis by (auto simp: board_def)
qed

lemma minimax_index:
  assumes "validBoard (board s)" "minimax (Suc f) (origBoard s) p s = Inr (r, s')"
  shows "s' = s \<and> (index r = Undefined \<or>
    (\<exists>n < length (board s). index r = Num n \<and> board s ! n = Num n \<and>
       (\<exists>c. minimax f (origBoard s) (if p = aiPlayer then huPlayer else aiPlayer)
              (store (origBoard s) n (Str p) s) = Inr (c, store (origBoard s) n (Str p) s) \<and>
            score r = score c)))"
proof -
  let ?q = "if p = aiPlayer then huPlayer else aiPlayer"
  from assms minimax_refines[OF assms(1), of "Suc f" p]
  have ev: "evaluate (winCombos s) (Suc f) (board s) p = Inr r" and s': "s' = s"
    by (auto simp: withState_def simp del: minimax.simps evaluate.simps split: sum.splits)
  from evaluate_index[OF ev] show ?thesis
  proof
    assume "index r = Undefined"
    with s' show ?thesis by simp
  next
    assume "\<exists>n \<in> set (numbers (board s)). index r = Num n \<and>
      (\<exists>c. evaluate (winCombos s) f ((board s)[n := Str p]) ?q = Inr c \<and> score r = score c)"
    then obtain n c where n: "n \<in> set (numbers (board s))" and i: "index r = Num n"
      and c: "evaluate (winCombos s) f ((board s)[n := Str p]) ?q = Inr c" and sc: "score r = score c"
      by blast
    from n assms(1) have lt: "n < length (board s)" and num: "board s ! n = Num n"
      by (auto simp: valid_mem_numbers)
    let ?s1 = "store (origBoard s) n (Str p) s"
    have b1: "board ?s1 = (board s)[n := Str p]" using lt by simp
    with assms(1) have "validBoard (board ?s1)" by (simp add: valid_update)
    from minimax_refines[OF this, of f ?q] c b1
    have "minimax f (origBoard s) ?q ?s1 = Inr (c, ?s1)"
      by (simp del: minimax.simps evaluate.simps)
    with s' lt i num sc show ?thesis by blast
  qed
qed

lemma board_timers [simp]: "board (s\<lparr>timers := x\<rparr>) = board s"
  by (simp add: board_def)

lemma aiCallback_valid:
  assumes "validBoard (board s)" "aiCallback fuel s = Inr s'"
  shows "validBoard (board s')"
proof (cases "timers s = 0")
  case True
  with assms show ?thesis by (simp add: aiCallback_def)
next
  case False
  let ?t = "s\<lparr>timers := timers s - 1\<rparr>"
  from False assms(2) obtain spot s1 where b: "bestSpot fuel ?t = Inr (spot, s1)"
    and t: "turn spot aiPlayer s1 = Inr s'"
    by (auto simp: aiCallback_def split: sum.splits)
  from t obtain n where spot: "spot = Num n"
    by (cases spot) (auto simp: turn_def)
  from b obtain r where m: "minimax fuel (origBoard ?t) aiPlayer ?t = Inr (r, s1)" and r: "index r = spot"
    by (auto simp: bestSpot_def split: sum.splits)
  from m obtain f where fuel: "fuel = Suc f" by (cases fuel) auto
  from assms(1) have vt: "validBoard (board ?t)" by simp
  from minimax_index[OF vt m[unfolded fuel]] r spot
  have s1: "s1 = ?t" and n: "n < length (board s)"
    by auto
  from turn_board[OF t[unfolded spot s1]] n assms(1) show ?thesis
    by (simp add: valid_update)
qed

lemma run_valid:
  "validBoard (board s) \<Longrightarrow> run fuel es s = Inr s' \<Longrightarrow> validBoard (board s')"
proof (induction es arbitrary: s)
  case Nil
  then show ?case by simp
next
  case (Cons e es)
  from Cons.prems(2) obtain s1 where h: "handle fuel e s = Inr s1" and r: "run fuel es s1 = Inr s'"
    by (auto split: sum.splits)
  from h Cons.prems(1) have "validBoard (board s1)"
    by (cases e) (auto intro: turnClick_valid aiCallback_valid)
  from Cons.IH[OF this r] show ?case .
qed

lemma gameBoard_iff:
  "gameBoard a \<longleftrightarrow>
     length a = 9 \<and> (\<forall>i < 9. a ! i = Num i \<or> a ! i = Str huPlayer \<or> a ! i = Str aiPlayer)"
  by (auto simp: gameBoard_def list_all_length nth_enumerate_eq)

lemma gameBoard_valid: "gameBoard a \<Longrightarrow> validBoard a"
  by (auto simp: gameBoard_iff validBoard_iff)

lemma gameBoard_update:
  assumes "gameBoard a" "p = huPlayer \<or> p = aiPlayer"
  shows "gameBoard (a[n := Str p])"
  using assms by (auto simp: gameBoard_iff nth_update_mark)

lemma gameBoard_fresh: "gameBoard (map Num [0..<9])"
  by (simp add: gameBoard_iff)

lemma turnClick_board:
  assumes "turnClick sq s = Inr s'"
  shows "board s' = board s \<or>
    (sq < length (board s) \<and> typeof_number (board s ! sq) \<and>
     board s' = (board s)[sq := Str huPlayer])"
proof (cases "gameActive s \<and> typeof_number (js_get (board s) sq)")
  case False
  with assms show ?thesis by (auto simp: turnClick_def board_def)
next
  case True
  then have sq: "sq < length (board s)" and num: "typeof_number (board s ! sq)"
    by (auto simp: js_get_def split: if_splits)
  from True assms obtain s1 where t: "turn (Num sq) huPlayer s = Inr s1"
    and s': "s' = s1 \<or> s' = s1\<lparr>message := Thinking, timers := Suc (timers s1)\<rparr>"
    by (auto simp: turnClick_def board_def split: sum.splits if_splits)
  from turn_board[OF t sq] s' have "board s' = (board s)[sq := Str huPlayer]"
    by (auto simp: board_def)
  with sq num show ?thesis by simp
qed

lemma aiCallback_board:
  assumes "validBoard (board s)" "aiCallback fuel s = Inr s'"
  shows "board s' = board s \<or>
    (\<exists>n < length (board s). board s ! n = Num n \<and> board s' = (board s)[n := Str aiPlayer])"
proof (cases "timers s = 0")
  case True
  with assms show ?thesis by (simp add: aiCallback_def)
next
  case False
  let ?t = "s\<lparr>timers := timers s - 1\<rparr>"
  from False assms(2) obtain spot s1 where b: "bestSpot fuel ?t = Inr (spot, s1)"
    and t: "turn spot aiPlayer s1 = Inr s'"
    by (auto simp: aiCallback_def split: sum.splits)
  from t obtain n where spot: "spot = Num n"
    by (cases spot) (auto simp: turn_def)
  from b obtain r where m: "minimax fuel (origBoard ?t) aiPlayer ?t = Inr (r, s1)" and r: "index r = spot"
    by (auto simp: bestSpot_def split: sum.splits)
  from m obtain f where fuel: "fuel = Suc f" by (cases fuel) auto
  from assms(1) have vt: "validBoard (board ?t)" by simp
  from minimax_index[OF vt m[unfolded fuel]] r spot
  have s1: "s1 = ?t" and n: "n < length (board s)" and nn: "board s ! n = Num n"
    by auto
  from turn_board[OF t[unfolded spot s1]] n nn show ?thesis
    by auto
qed

lemma run_gameBoard:
  "gameBoard (board s) \<Longrightarrow> run fuel es s = Inr s' \<Longrightarrow> gameBoard (board s')"
proof (induction es arbitrary: s)
  case Nil
  then show ?case by simp
next
  case (Cons e es)
  from Cons.prems(2) obtain s1 where h: "handle fuel e s = Inr s1" and r: "run fuel es s1 = Inr s'"
    by (auto split: sum.splits)
  have "gameBoard (board s1)"
  proof (cases e)
    case (Click sq)
    with h turnClick_board[of sq s s1] Cons.prems(1) show ?thesis
      by (auto simp: gameBoard_update)
  next
    case Timeout
    with h aiCallback_board[OF gameBoard_valid[OF Cons.prems(1)], of fuel s1] Cons.prems(1)
    show ?thesis
      by (auto simp: gameBoard_update)
  qed
  from Cons.IH[OF this r] show ?case .
qed

lemma board_startGame:
  "board (startGame s) = [Num 0, Num 1, Num 2, Num 3, Num 4, Num 5, Num 6, Num 7, Num 8]"
  by (simp add: startGame_def board_def fresh_board)

lemma broken_eval:
  "\<not> validBoard brokenBoard \<and>
   minimax (Suc (Suc (Suc k))) 0 aiPlayer (gameWith brokenBoard) =
     Inr (\<lparr>index = Num 1, score = 10\<rparr>, gameWith brokenBoard) \<and>
   checkWin (winCombos pageLoad) (js_set brokenBoard 1 (Str aiPlayer)) aiPlayer = None \<and>
   checkWin (winCombos pageLoad) (js_set brokenBoard 0 (Str aiPlayer)) aiPlayer \<noteq> None"
  by (simp add: eval_defs validBoard_def brokenBoard_def)

lemma tie_eval:
  "validBoard tieBoard \<and>
   evaluate (winCombos pageLoad) (Suc (Suc k)) tieBoard aiPlayer = Inr \<lparr>index = Num 8, score = 0\<rparr>"
  by (simp add: eval_defs validBoard_def tieBoard_def)

lemma tie_copy_id: "tieBoard[8 := Num 8] = tieBoard"
  by (simp add: tieBoard_def)

section \<open>Clicks answered one at a time\<close>

lemma count_update_new:
  "n < length a \<Longrightarrow> a ! n \<noteq> x \<Longrightarrow> count_list (a[n := x]) x = Suc (count_list a x)"
proof (induction a arbitrary: n)
  case Nil
  then show ?case by simp
next
  case (Cons c a)
  then show ?case by (cases n) auto
qed

lemma count_update_other:
  "n < length a \<Longrightarrow> a ! n \<noteq> y \<Longrightarrow> x \<noteq> y \<Longrightarrow> count_list (a[n := x]) y = count_list a y"
proof (induction a arbitrary: n)
  case Nil
  then show ?case by simp
next
  case (Cons c a)
  then show ?case by (cases n) auto
qed

lemma lead_mark_hu:
  assumes "n < length (board s)" "board s ! n = Num n" "board s' = (board s)[n := Str huPlayer]"
  shows "lead s' = lead s + 1"
  using assms count_update_new[of n "board s" "Str huPlayer"]
    count_update_other[of n "board s" "Str aiPlayer" "Str huPlayer"]
  by (simp add: lead_def huPlayer_def aiPlayer_def)

lemma lead_mark_ai:
  assumes "n < length (board s)" "board s ! n = Num n" "board s' = (board s)[n := Str aiPlayer]"
  shows "lead s' = lead s - 1"
  using assms count_update_new[of n "board s" "Str aiPlayer"]
    count_update_other[of n "board s" "Str huPlayer" "Str aiPlayer"]
  by (simp add: lead_def huPlayer_def aiPlayer_def)

lemma turn_timers: "turn sq p s = Inr s' \<Longrightarrow> timers s' = timers s"
  by (auto simp: turn_def Let_def checkTie_def gameOver_def store_def
      split: jsval.splits if_splits option.splits)

lemma clickThenReply_balanced:
  assumes "balanced s" "clickThenReply fuel sq s = Inr s'"
  shows "balanced s'"
proof (cases "gameActive s \<and> typeof_number (js_get (board s) sq)")
  case False
  then have "turnClick sq s = Inr s" by (auto simp: turnClick_def board_def)
  with assms show ?thesis
    by (simp add: clickThenReply_def aiCallback_def balanced_def)
next
  case True
  from assms(1) have v: "validBoard (board s)" and t0: "timers s = 0"
    by (simp_all add: balanced_def)
  from True assms(1) have l0: "lead s = 0" by (auto simp: balanced_def)
  from True have sq: "sq < length (board s)"
    by (auto simp: js_get_def split: if_splits)
  with True v have num: "board s ! sq = Num sq"
    by (auto simp: js_get_def validBoard_iff)
  from assms(2) obtain s1 where c: "turnClick sq s = Inr s1" and a: "aiCallback fuel s1 = Inr s'"
    by (auto simp: clickThenReply_def split: sum.splits)
  from True c obtain s0 where t: "turn (Num sq) huPlayer s = Inr s0"
    and s1: "s1 = (if gameActive s0 then s0\<lparr>message := Thinking, timers := Suc (timers s0)\<rparr> else s0)"
    by (auto simp: turnClick_def board_def split: sum.splits if_splits)
  from turn_board[OF t sq] have b0: "board s0 = (board s)[sq := Str huPlayer]" by simp
  from lead_mark_hu[OF sq num b0] l0 have l1: "lead s0 = 1" by simp
  from v b0 have v0: "validBoard (board s0)" by (simp add: valid_update)
  from turn_timers[OF t] t0 have tm0: "timers s0 = 0" by simp
  show ?thesis
  proof (cases "gameActive s0")
    case False
    with s1 a tm0 have "s' = s0" by (simp add: aiCallback_def)
    with False l1 v0 tm0 show ?thesis by (simp add: balanced_def)
  next
    case True
    let ?t = "s1\<lparr>timers := timers s1 - 1\<rparr>"
    from True s1 have bt: "board ?t = board s0" and tt: "timers ?t = 0"
      and ls: "lead ?t = lead s0"
      using tm0 by (simp_all add: board_def lead_def)
    from True s1 have "timers s1 \<noteq> 0" by simp
    with a obtain spot s2 where b: "bestSpot fuel ?t = Inr (spot, s2)"
      and t2: "turn spot aiPlayer s2 = Inr s'"
      by (auto simp: aiCallback_def split: sum.splits)
    from t2 obtain n where spot: "spot = Num n"
      by (cases spot) (auto simp: turn_def)
    from b obtain r where m: "minimax fuel (origBoard ?t) aiPlayer ?t = Inr (r, s2)"
      and r: "index r = spot"
      by (auto simp: bestSpot_def split: sum.splits)
    from m obtain f where fuel: "fuel = Suc f" by (cases fuel) auto
    from v0 bt have vt: "validBoard (board ?t)" by simp
    from minimax_index[OF vt m[unfolded fuel]] r spot
    have s2: "s2 = ?t" and n: "n < length (board ?t)" and nn: "board ?t ! n = Num n"
      by auto
    from turn_board[OF t2[unfolded spot s2] n]
    have b': "board s' = (board ?t)[n := Str aiPlayer]" by simp
    from lead_mark_ai[OF n nn b'] ls l1 have "lead s' = 0" by simp
    moreover from vt b' have "validBoard (board s')" by (simp add: valid_update)
    moreover from turn_timers[OF t2[unfolded s2]] tt have "timers s' = 0" by simp
    ultimately show ?thesis by (simp add: balanced_def)
  qed
qed

lemma play_balanced:
  "balanced s \<Longrightarrow> play fuel sqs s = Inr s' \<Longrightarrow> balanced s'"
proof (induction sqs arbitrary: s)
  case Nil
  then show ?case by simp
next
  case (Cons sq sqs)
  from Cons.prems(2) obtain s1 where c: "clickThenReply fuel sq s = Inr s1"
    and p: "play fuel sqs s1 = Inr s'"
    by (auto split: sum.splits)
  from Cons.IH[OF clickThenReply_balanced[OF Cons.prems(1) c] p] show ?case .
qed

lemma pageLoad_balanced: "balanced pageLoad"
proof -
  have b: "board pageLoad = map Num [0..<9]"
    by (simp add: pageLoad_def startGame_def script_def board_def)
  have "lead pageLoad = 0"
    by (simp add: lead_def b fresh_board)
  moreover have "timers pageLoad = 0"
    by (simp add: pageLoad_def startGame_def script_def)
  ultimately show ?thesis
    by (simp add: balanced_def b valid_fresh)
qed

lemma alternating_lead:
  assumes "play fuel sqs pageLoad = Inr s"
  shows "lead s = 0 \<or> lead s = 1"
  using play_balanced[OF pageLoad_balanced assms] by (auto simp: balanced_def)

lemma alternating_example:
  "balanced (gameWith [Str ''X'', Str ''O'', Str ''X'', Str ''O'', Str ''O'', Str ''X'', Num 6, Num 7, Num 8]) \<and>
   (\<exists>s. play (Suc (Suc (Suc k))) [7]
       (gameWith [Str ''X'', Str ''O'', Str ''X'', Str ''O'', Str ''O'', Str ''X'', Num 6, Num 7, Num 8]) = Inr s \<and>
      board s = [Str ''X'', Str ''O'', Str ''X'', Str ''O'', Str ''O'', Str ''X'', Num 6, Str ''X'', Str ''O''] \<and>
      gameActive s \<and> lead s = 0)"
  by (simp add: eval_defs validBoard_def balanced_def lead_def clickThenReply_def aiCallback_def)

section \<open>The table of win lines\<close>

lemma turn_winCombos: "turn sq p s = Inr s' \<Longrightarrow> winCombos s' = winCombos s"
  by (auto simp: turn_def Let_def checkTie_def gameOver_def store_def
      split: jsval.splits if_splits option.splits)

lemma turnClick_winCombos: "turnClick sq s = Inr s' \<Longrightarrow> winCombos s' = winCombos s"
  by (auto simp: turnClick_def split: if_splits sum.splits dest: turn_winCombos)

lemma collect_winCombos:
  assumes rec: "\<And>q t r t'. rec q t = Inr (r, t') \<Longrightarrow> winCombos t' = winCombos t"
    and "collect rec b p spots moves s = Inr (ms, s')"
  shows "winCombos s' = winCombos s"
  using assms(2)
proof (induction spots arbitrary: moves s)
  case Nil
  then show ?case by simp
next
  case (Cons spot spots)
  let ?q = "if p = aiPlayer then huPlayer else aiPlayer"
  from Cons.prems have "\<exists>result s2. rec ?q (store b spot (Str p) s) = Inr (result, s2) \<and>
    (\<exists>sc. collect rec b p spots (moves @ [\<lparr>index = js_get (heap s b) spot, score = sc\<rparr>])
       (store b spot (js_get (heap s b) spot) s2) = Inr (ms, s'))"
    by (subst (asm) collect_Cons) (auto split: sum.splits simp del: collect.simps)
  then obtain result s2 sc where r: "rec ?q (store b spot (Str p) s) = Inr (result, s2)"
    and c: "collect rec b p spots (moves @ [\<lparr>index = js_get (heap s b) spot, score = sc\<rparr>])
       (store b spot (js_get (heap s b) spot) s2) = Inr (ms, s')"
    by blast
  from Cons.IH[OF c] rec[OF r] show ?case by simp
qed

lemma minimax_winCombos:
  "minimax fuel b p s = Inr (r, s') \<Longrightarrow> winCombos s' = winCombos s"
proof (induction fuel arbitrary: p s r s')
  case 0
  then show ?case by simp
next
  case (Suc fuel)
  show ?case
  proof (cases "checkWin (winCombos s) (heap s b) huPlayer \<noteq> None \<or>
      checkWin (winCombos s) (heap s b) aiPlayer \<noteq> None \<or> emptySquares s = []")
    case True
    with Suc.prems show ?thesis by (auto simp: Let_def split: if_splits)
  next
    case False
    with Suc.prems obtain moves where
      "collect (minimax fuel b) b p (emptySquares s) [] s = Inr (moves, s')"
      by (auto simp: Let_def split: sum.splits option.splits)
    from collect_winCombos[of "minimax fuel b", OF Suc.IH this] show ?thesis .
  qed
qed

lemma aiCallback_winCombos: "aiCallback fuel s = Inr s' \<Longrightarrow> winCombos s' = winCombos s"
  by (auto simp: aiCallback_def bestSpot_def split: if_splits sum.splits
      dest!: turn_winCombos minimax_winCombos)

lemma run_winCombos: "run fuel es s = Inr s' \<Longrightarrow> winCombos s' = winCombos s"
proof (induction es arbitrary: s)
  case Nil
  then show ?case by simp
next
  case (Cons e es)
  from Cons.prems obtain s1 where h: "handle fuel e s = Inr s1" and r: "run fuel es s1 = Inr s'"
    by (auto split: sum.splits)
  from h have "winCombos s1 = winCombos s"
    by (cases e) (auto dest: turnClick_winCombos aiCallback_winCombos)
  with Cons.IH[OF r] show ?case by simp
qed

lemma find_enumerate_rel:
  "list_all2 (\<lambda>w t. P w = Q t) cs ts \<Longrightarrow>
   map_option fst (List.find (\<lambda>(i, w). P w) (enumerate n cs)) =
   map_option fst (List.find (\<lambda>(k, t). Q t) (enumerate n ts))"
  by (induction arbitrary: n rule: list_all2_induct) auto

lemma checkWin_firstLine:
  "checkWin [[0, 1, 2], [3, 4, 5], [6, 7, 8], [0, 3, 6], [1, 4, 7], [2, 5, 8], [0, 4, 8], [6, 4, 2]] a p =
     map_option (\<lambda>k. \<lparr>wonIndex = k, wonPlayer = p\<rparr>) (firstLine a p)"
proof -
  let ?cs = "[[0, 1, 2], [3, 4, 5], [6, 7, 8], [0, 3, 6], [1, 4, 7], [2, 5, 8], [0, 4, 8], [6, 4, 2::nat]]"
  let ?Q = "\<lambda>(x, y, z). js_get a x = Str p \<and> js_get a y = Str p \<and> js_get a z = Str p"
  have rel: "list_all2 (\<lambda>w t. lineMarked a p w = ?Q t) ?cs winLines"
    by (auto simp: winLines_def lineMarked_def)
  have "checkWin ?cs a p =
    map_option (\<lambda>k. \<lparr>wonIndex = k, wonPlayer = p\<rparr>)
      (map_option fst (List.find (\<lambda>(i, w). lineMarked a p w) (enumerate 0 ?cs)))"
    unfolding checkWin_find by (simp add: option.map_comp comp_def case_prod_beta)
  also have "map_option fst (List.find (\<lambda>(i, w). lineMarked a p w) (enumerate 0 ?cs)) =
    map_option fst (List.find (\<lambda>(k, t). ?Q t) (enumerate 0 winLines))"
    by (rule find_enumerate_rel[OF rel])
  also have "\<dots> = firstLine a p"
    by (simp only: firstLine_def)
  finally show ?thesis .
qed

text \<open>
  C5. Win detection uses the array \<open>winCombos\<close>. The script initialises it with eight
  triples: the three rows, the three columns and the two diagonals, in the order of the
  specification (the source lists the cells of the last diagonal as 6, 4, 2; these are the
  cells of the line (2,4,6)). No operation of the program writes to it: \<open>startGame\<close>, a
  placement of \<open>minimax\<close>, \<open>minimax\<close> itself, a click and the AI's callback all return a
  state with the same table. So in every state that a run of events reaches from the loaded
  page the table is the eight lines, and \<open>checkWin\<close> returns the position of the first of
  the specification's lines that the player has marked.
\<close>

theorem winCombos_lines:
  "winCombos (startGame s) = winCombos s \<and>
   winCombos (store b i v s) = winCombos s \<and>
   (minimax fuel b p s = Inr (r, s') \<longrightarrow> winCombos s' = winCombos s) \<and>
   (turnClick sq s = Inr s' \<longrightarrow> winCombos s' = winCombos s) \<and>
   (aiCallback fuel s = Inr s' \<longrightarrow> winCombos s' = winCombos s) \<and>
   (run fuel es pageLoad = Inr t \<longrightarrow>
      winCombos t =
        [[0, 1, 2], [3, 4, 5], [6, 7, 8], [0, 3, 6], [1, 4, 7], [2, 5, 8], [0, 4, 8], [6, 4, 2]] \<and>
      length (winCombos t) = 8 \<and>
      map set (winCombos t) =
        [{0, 1, 2}, {3, 4, 5}, {6, 7, 8}, {0, 3, 6}, {1, 4, 7}, {2, 5, 8}, {0, 4, 8}, {2, 4, 6}] \<and>
      checkWin (winCombos t) a q = map_option (\<lambda>k. \<lparr>wonIndex = k, wonPlayer = q\<rparr>) (firstLine a q))"
proof (intro conjI impI)
  show "winCombos (startGame s) = winCombos s" by (simp add: startGame_def)
  show "winCombos (store b i v s) = winCombos s" by simp
next
  assume "minimax fuel b p s = Inr (r, s')"
  then show "winCombos s' = winCombos s" by (rule minimax_winCombos)
next
  assume "turnClick sq s = Inr s'"
  then show "winCombos s' = winCombos s" by (rule turnClick_winCombos)
next
  assume "aiCallback fuel s = Inr s'"
  then show "winCombos s' = winCombos s" by (rule aiCallback_winCombos)
next
  assume "run fuel es pageLoad = Inr t"
  from run_winCombos[OF this] have t: "winCombos t =
    [[0, 1, 2], [3, 4, 5], [6, 7, 8], [0, 3, 6], [1, 4, 7], [2, 5, 8], [0, 4, 8], [6, 4, 2]]"
    by (simp add: winCombos_pageLoad)
  then show "winCombos t =
    [[0, 1, 2], [3, 4, 5], [6, 7, 8], [0, 3, 6], [1, 4, 7], [2, 5, 8], [0, 4, 8], [6, 4, 2]]" .
  from t show "length (winCombos t) = 8" by simp
  from t show "map set (winCombos t) =
    [{0, 1, 2}, {3, 4, 5}, {6, 7, 8}, {0, 3, 6}, {1, 4, 7}, {2, 5, 8}, {0, 4, 8}, {2, 4, 6}]"
    by auto
  from t show "checkWin (winCombos t) a q =
    map_option (\<lambda>k. \<lparr>wonIndex = k, wonPlayer = q\<rparr>) (firstLine a q)"
    by (simp only: checkWin_firstLine)
qed

theorem winCombos_lines_witness:
  "(\<exists>t. run 0 [Click 0, Click 1] pageLoad = Inr t \<and>
      winCombos t =
        [[0, 1, 2], [3, 4, 5], [6, 7, 8], [0, 3, 6], [1, 4, 7], [2, 5, 8], [0, 4, 8], [6, 4, 2]] \<and>
      checkWin (winCombos t)
        [Str ''X'', Str ''O'', Str ''X'', Str ''O'', Str ''X'', Str ''O'', Str ''X'', Num 7, Num 8] ''X'' =
        Some \<lparr>wonIndex = 7, wonPlayer = ''X''\<rparr>) \<and>
   (\<exists>r t. minimax (Suc (Suc (Suc 0))) 0 aiPlayer
       (gameWith [Str ''X'', Str ''X'', Num 2, Str ''O'', Str ''O'', Str ''X'', Str ''X'', Str ''O'', Num 8]) =
         Inr (r, t) \<and>
      winCombos t = winCombos pageLoad) \<and>
   firstLine [Str ''X'', Str ''O'', Str ''X'', Str ''O'', Str ''X'', Str ''O'', Str ''X'', Num 7, Num 8] ''X'' =
     Some 7"
proof -
  let ?G = "gameWith [Str ''X'', Str ''X'', Num 2, Str ''O'', Str ''O'', Str ''X'', Str ''X'', Str ''O'', Num 8]"
  let ?a = "[Str ''X'', Str ''O'', Str ''X'', Str ''O'', Str ''X'', Str ''O'', Str ''X'', Num 7, Num 8]"
  have f: "firstLine ?a ''X'' = Some 7"
    by (simp add: firstLine_def winLines_def js_get_def)
  obtain t where t: "run 0 [Click 0, Click 1] pageLoad = Inr t"
    by (simp add: eval_defs)
  from winCombos_lines[where fuel = 0 and es = "[Click 0, Click 1]" and t = t and a = ?a and q = "''X''"] t
  have 1: "winCombos t =
      [[0, 1, 2], [3, 4, 5], [6, 7, 8], [0, 3, 6], [1, 4, 7], [2, 5, 8], [0, 4, 8], [6, 4, 2]]"
    and d: "checkWin (winCombos t) ?a ''X'' =
      map_option (\<lambda>k. \<lparr>wonIndex = k, wonPlayer = ''X''\<rparr>) (firstLine ?a ''X'')"
    by blast+
  from d f have 2: "checkWin (winCombos t) ?a ''X'' = Some \<lparr>wonIndex = 7, wonPlayer = ''X''\<rparr>"
    by simp
  obtain r u where m: "minimax (Suc (Suc (Suc 0))) 0 aiPlayer ?G = Inr (r, u)"
    by (simp add: eval_defs)
  from winCombos_lines[where fuel = "Suc (Suc (Suc 0))" and b = 0 and p = aiPlayer and s = ?G
      and r = r and s' = u] m
  have "winCombos u = winCombos ?G" by blast
  then have "winCombos u = winCombos pageLoad" by simp
  with t 1 2 m f show ?thesis by blast
qed

text \<open>
  C7. For every array and every player, \<open>checkWin\<close> returns a result exactly when one of the
  lines of the table has its three cells marked by the player, and the result names the
  player and the first such line of the table. In every state reached from the loaded page
  the table is that of the eight win lines.
\<close>

theorem checkWin_first_line:
  "(checkWin (winCombos s) a p \<noteq> None \<longleftrightarrow>
      (\<exists>k < length (winCombos s). \<forall>e \<in> set (winCombos s ! k). js_get a e = Str p)) \<and>
   (\<forall>w. checkWin (winCombos s) a p = Some w \<longrightarrow>
      wonPlayer w = p \<and> wonIndex w < length (winCombos s) \<and>
      (\<forall>e \<in> set (winCombos s ! wonIndex w). js_get a e = Str p) \<and>
      (\<forall>j < wonIndex w. \<not> (\<forall>e \<in> set (winCombos s ! j). js_get a e = Str p))) \<and>
   (run fuel es pageLoad = Inr s \<longrightarrow>
      winCombos s =
        [[0, 1, 2], [3, 4, 5], [6, 7, 8], [0, 3, 6], [1, 4, 7], [2, 5, 8], [0, 4, 8], [6, 4, 2]])"
  using checkWin_None_iff[of "winCombos s" a p] checkWin_SomeD[of "winCombos s" a p]
    run_winCombos[of fuel es pageLoad s]
  by (auto simp: lineMarked_def list_all_iff winCombos_pageLoad)

theorem checkWin_first_line_witness:
  "checkWin (winCombos pageLoad)
     [Str ''X'', Str ''X'', Str ''X'', Str ''X'', Str ''O'', Str ''O'', Str ''X'', Str ''O'', Str ''O'']
     ''X'' = Some \<lparr>wonIndex = 0, wonPlayer = ''X''\<rparr> \<and>
   lineMarked [Str ''X'', Str ''X'', Str ''X'', Str ''X'', Str ''O'', Str ''O'', Str ''X'', Str ''O'', Str ''O'']
     ''X'' (winCombos pageLoad ! 3) \<and>
   run 0 [] pageLoad = Inr pageLoad"
proof -
  let ?a = "[Str ''X'', Str ''X'', Str ''X'', Str ''X'', Str ''O'', Str ''O'', Str ''X'', Str ''O'', Str ''O'']"
  have c: "checkWin (winCombos pageLoad) ?a ''X'' \<noteq> None"
    by (simp add: checkWin_def plays_def winCombos_pageLoad)
  then obtain w where w: "checkWin (winCombos pageLoad) ?a ''X'' = Some w" by blast
  have r: "run 0 [] pageLoad = Inr pageLoad" by simp
  have l3: "lineMarked ?a ''X'' (winCombos pageLoad ! 3)"
    by (simp add: winCombos_pageLoad lineMarked_def js_get_def)
  have l0: "\<forall>e \<in> set (winCombos pageLoad ! 0). js_get ?a e = Str ''X''"
    by (simp add: winCombos_pageLoad js_get_def)
  from checkWin_first_line[of pageLoad ?a "''X''" 0 "[]"] w l0
  have "wonPlayer w = ''X''" "wonIndex w = 0"
    by (auto simp: not_less)
  with w l3 r show ?thesis by simp
qed

section \<open>Terminal positions\<close>

text \<open>
  C2. At every level of the recursion (every number of remaining frames, every player to
  move) \<open>minimax\<close> first scores a terminal position: a completed line of the human gives
  the score -10; otherwise a completed line of the AI gives 10; otherwise an empty list of
  available spots gives 0. The result carries no index, the state is returned as it was
  (no move has been tried), and the three values do not depend on the depth. The available
  spots are those of \<open>origBoard\<close>; when the array passed is \<open>origBoard\<close> itself the list
  is empty exactly when no cell of the array is a number.
\<close>

theorem minimax_terminal_scores:
  "(checkWin (winCombos s) (heap s b) huPlayer \<noteq> None \<longrightarrow>
      minimax (Suc fuel) b p s = Inr (\<lparr>index = Undefined, score = - 10\<rparr>, s)) \<and>
   (checkWin (winCombos s) (heap s b) huPlayer = None \<and> checkWin (winCombos s) (heap s b) aiPlayer \<noteq> None \<longrightarrow>
      minimax (Suc fuel) b p s = Inr (\<lparr>index = Undefined, score = 10\<rparr>, s)) \<and>
   (checkWin (winCombos s) (heap s b) huPlayer = None \<and> checkWin (winCombos s) (heap s b) aiPlayer = None \<and>
    emptySquares s = [] \<longrightarrow>
      minimax (Suc fuel) b p s = Inr (\<lparr>index = Undefined, score = 0\<rparr>, s)) \<and>
   (b = origBoard s \<longrightarrow> (emptySquares s = [] \<longleftrightarrow> \<not> list_ex typeof_number (heap s b)))"
  by (simp add: emptySquares_def numbers_Nil_iff)

theorem minimax_terminal_scores_witness:
  "minimax (Suc 0) 0 aiPlayer
     (gameWith [Str ''X'', Str ''X'', Str ''X'', Str ''O'', Str ''O'', Str ''O'', Num 6, Num 7, Num 8]) =
   Inr (\<lparr>index = Undefined, score = - 10\<rparr>,
     gameWith [Str ''X'', Str ''X'', Str ''X'', Str ''O'', Str ''O'', Str ''O'', Num 6, Num 7, Num 8]) \<and>
   minimax (Suc 0) 0 huPlayer
     (gameWith [Str ''O'', Str ''O'', Str ''O'', Str ''X'', Str ''X'', Num 5, Num 6, Str ''X'', Num 8]) =
   Inr (\<lparr>index = Undefined, score = 10\<rparr>,
     gameWith [Str ''O'', Str ''O'', Str ''O'', Str ''X'', Str ''X'', Num 5, Num 6, Str ''X'', Num 8]) \<and>
   minimax (Suc 0) 0 aiPlayer
     (gameWith [Str ''X'', Str ''O'', Str ''X'', Str ''X'', Str ''O'', Str ''O'', Str ''O'', Str ''X'', Str ''X'']) =
   Inr (\<lparr>index = Undefined, score = 0\<rparr>,
     gameWith [Str ''X'', Str ''O'', Str ''X'', Str ''X'', Str ''O'', Str ''O'', Str ''O'', Str ''X'', Str ''X''])"
  using
    minimax_terminal_scores[of "gameWith [Str ''X'', Str ''X'', Str ''X'', Str ''O'', Str ''O'',
      Str ''O'', Num 6, Num 7, Num 8]" 0 0 aiPlayer]
    minimax_terminal_scores[of "gameWith [Str ''O'', Str ''O'', Str ''O'', Str ''X'', Str ''X'',
      Num 5, Num 6, Str ''X'', Num 8]" 0 0 huPlayer]
    minimax_terminal_scores[of "gameWith [Str ''X'', Str ''O'', Str ''X'', Str ''X'', Str ''O'',
      Str ''O'', Str ''O'', Str ''X'', Str ''X'']" 0 0 aiPlayer]
  by (simp add: eval_defs)

section \<open>Move requests\<close>

text \<open>
  C6. A click on a cell that does not hold a number, or a click when the game is not
  active, returns the state as it is: the board, the active flag, the message and the
  scheduled callbacks are all unchanged. An accepted click on one of the nine cells returns
  a state in which the cell holds the human's mark and the active flag already tells the
  outcome on the new board: the game stays active exactly when the human has no line and a
  number is left.
\<close>

theorem turnClick_guard:
  "(\<not> gameActive s \<or> \<not> typeof_number (js_get (board s) sq) \<longrightarrow> turnClick sq s = Inr s) \<and>
   (gameActive s \<and> typeof_number (js_get (board s) sq) \<and> cellExists sq \<longrightarrow>
      (\<exists>s'. turnClick sq s = Inr s' \<and>
         origBoard s' = origBoard s \<and>
         board s' = (board s)[sq := Str huPlayer] \<and>
         gameActive s' = (checkWin (winCombos s') (board s') huPlayer = None \<and> emptySquares s' \<noteq> [])))"
  by (auto simp: turnClick_def turn_def board_def store_def js_get_def js_set_def Let_def
      checkTie_def gameOver_def emptySquares_def split: option.splits if_splits)

theorem turnClick_guard_witness:
  "turnClick 0 (gameWith [Str ''X'', Str ''X'', Num 2, Str ''O'', Str ''O'', Num 5, Num 6, Num 7, Num 8]) =
     Inr (gameWith [Str ''X'', Str ''X'', Num 2, Str ''O'', Str ''O'', Num 5, Num 6, Num 7, Num 8]) \<and>
   (\<exists>s'. turnClick 2
       (gameWith [Str ''X'', Str ''X'', Num 2, Str ''O'', Str ''O'', Num 5, Num 6, Num 7, Num 8]) = Inr s' \<and>
      board s' = [Str ''X'', Str ''X'', Str ''X'', Str ''O'', Str ''O'', Num 5, Num 6, Num 7, Num 8] \<and>
      \<not> gameActive s')"
  using
    turnClick_guard[of "gameWith [Str ''X'', Str ''X'', Num 2, Str ''O'', Str ''O'', Num 5, Num 6,
      Num 7, Num 8]" 0]
    turnClick_guard[of "gameWith [Str ''X'', Str ''X'', Num 2, Str ''O'', Str ''O'', Num 5, Num 6,
      Num 7, Num 8]" 2]
  by (simp add: eval_defs)

text \<open>
  C8. The marks of X should exceed the marks of O by 0 or 1 in every state reachable from a
  fresh game, with no two consecutive marks of one player. That holds when every click is
  answered by its callback before the next click (lemma \<open>alternating_lead\<close>), but the
  code does not enforce it: two clicks, on cells 0 and 1, handled before the callback of
  the first has run, are both accepted. The board then has two marks of X and none of O,
  and two callbacks wait.
\<close>

theorem two_clicks_two_marks:
  "\<exists>s. run fuel [Click 0, Click 1] pageLoad = Inr s \<and>
     board s = [Str ''X'', Str ''X'', Num 2, Num 3, Num 4, Num 5, Num 6, Num 7, Num 8] \<and>
     gameActive s \<and> timers s = 2 \<and>
     count_list (board s) (Str huPlayer) = 2 \<and> count_list (board s) (Str aiPlayer) = 0"
  by (simp add: eval_defs)

section \<open>Selection and restoration in minimax\<close>

text \<open>
  C3. The selection loop of \<open>minimax\<close> returns, for the AI, the position of the greatest
  score in the list of candidates and, for any other player (the human), the position of
  the smallest; among equal optima it keeps the first, since a later candidate replaces the
  best only when it is strictly better. On a board in the game's representation that is not
  terminal, the candidates are collected for the empty cells in increasing index order,
  each with the index of its cell, and \<open>minimax\<close> returns the candidate selected so.
\<close>

theorem minimax_selects_first_optimum:
  "(moves \<noteq> [] \<longrightarrow>
      (\<exists>k. bestMove p moves = Some k \<and>
         (if p = aiPlayer then firstMax moves k else firstMin moves k))) \<and>
   (validBoard (board s) \<and> length (emptySquares s) \<le> fuel \<and>
    checkWin (winCombos s) (board s) huPlayer = None \<and> checkWin (winCombos s) (board s) aiPlayer = None \<and>
    emptySquares s \<noteq> [] \<longrightarrow>
      (\<exists>ms k. collect (minimax fuel (origBoard s)) (origBoard s) p (emptySquares s) [] s
            = Inr (ms, s) \<and>
         map index ms = map Num (emptySquares s) \<and>
         sorted_wrt (<) (emptySquares s) \<and>
         bestMove p ms = Some k \<and>
         (if p = aiPlayer then firstMax ms k else firstMin ms k) \<and>
         minimax (Suc fuel) (origBoard s) p s = Inr (ms ! k, s)))"
proof (intro conjI impI)
  assume "moves \<noteq> []"
  then show "\<exists>k. bestMove p moves = Some k \<and>
      (if p = aiPlayer then firstMax moves k else firstMin moves k)"
    by (rule bestMove_optimum)
next
  assume a: "validBoard (board s) \<and> length (emptySquares s) \<le> fuel \<and>
    checkWin (winCombos s) (board s) huPlayer = None \<and> checkWin (winCombos s) (board s) aiPlayer = None \<and>
    emptySquares s \<noteq> []"
  then obtain ms where
    c: "collect (minimax fuel (origBoard s)) (origBoard s) p (emptySquares s) [] s = Inr (ms, s)"
    and idx: "map index ms = map Num (emptySquares s)"
    using collect_valid[of s fuel p] by blast
  from a idx have "ms \<noteq> []" by auto
  then obtain k where k: "bestMove p ms = Some k"
    and opt: "if p = aiPlayer then firstMax ms k else firstMin ms k"
    using bestMove_optimum[of ms p] by blast
  from a have srt: "sorted_wrt (<) (emptySquares s)"
    by (simp add: emptySquares_def board_def[symmetric] valid_sorted_numbers)
  from a c k have "minimax (Suc fuel) (origBoard s) p s = Inr (ms ! k, s)"
    by (simp add: Let_def board_def)
  with c idx srt k opt show "\<exists>ms k.
      collect (minimax fuel (origBoard s)) (origBoard s) p (emptySquares s) [] s = Inr (ms, s) \<and>
      map index ms = map Num (emptySquares s) \<and>
      sorted_wrt (<) (emptySquares s) \<and>
      bestMove p ms = Some k \<and>
      (if p = aiPlayer then firstMax ms k else firstMin ms k) \<and>
      minimax (Suc fuel) (origBoard s) p s = Inr (ms ! k, s)"
    by blast
qed

theorem minimax_selects_first_optimum_witness:
  "validBoard (board (gameWith [Str ''X'', Str ''X'', Num 2, Str ''O'', Str ''O'', Str ''X'', Str ''X'', Str ''O'', Num 8])) \<and>
   emptySquares (gameWith [Str ''X'', Str ''X'', Num 2, Str ''O'', Str ''O'', Str ''X'', Str ''X'', Str ''O'', Num 8]) = [2, 8] \<and>
   collect (minimax 2 0) 0 aiPlayer [2, 8] []
     (gameWith [Str ''X'', Str ''X'', Num 2, Str ''O'', Str ''O'', Str ''X'', Str ''X'', Str ''O'', Num 8]) =
   Inr ([\<lparr>index = Num 2, score = 0\<rparr>, \<lparr>index = Num 8, score = - 10\<rparr>],
     gameWith [Str ''X'', Str ''X'', Num 2, Str ''O'', Str ''O'', Str ''X'', Str ''X'', Str ''O'', Num 8]) \<and>
   bestMove aiPlayer [\<lparr>index = Num 2, score = 0\<rparr>, \<lparr>index = Num 8, score = - 10\<rparr>] = Some 0 \<and>
   bestMove huPlayer [\<lparr>index = Num 2, score = 0\<rparr>, \<lparr>index = Num 8, score = - 10\<rparr>] = Some 1 \<and>
   bestMove aiPlayer [\<lparr>index = Num 5, score = 0\<rparr>, \<lparr>index = Num 6, score = 10\<rparr>, \<lparr>index = Num 7, score = 10\<rparr>] = Some 1 \<and>
   bestMove huPlayer [\<lparr>index = Num 5, score = 0\<rparr>, \<lparr>index = Num 6, score = - 10\<rparr>, \<lparr>index = Num 7, score = - 10\<rparr>] = Some 1"
  using minimax_selects_first_optimum[of
      "[\<lparr>index = Num 2, score = 0\<rparr>, \<lparr>index = Num 8, score = - 10\<rparr>]" aiPlayer
      "gameWith [Str ''X'', Str ''X'', Num 2, Str ''O'', Str ''O'', Str ''X'', Str ''X'', Str ''O'', Num 8]"
      2]
  by (simp add: eval_defs validBoard_def numeral_2_eq_2)

text \<open>
  C4. On every board in the game's representation and for every player, \<open>minimax\<close> called
  on \<open>origBoard\<close> (as \<open>bestSpot\<close> calls it) returns when the stack allows one frame more
  than there are empty cells, and the state it returns is the state it was given: every
  array of the store, the board among them, is as before. More generally, for any array
  reference, whenever a call returns it returns the state it was given, provided the
  numbers of \<open>origBoard\<close> are indices of that array (no write extends it).
\<close>

theorem minimax_restores_board:
  "(validBoard (board s) \<and> length (emptySquares s) \<le> fuel \<longrightarrow>
      (\<exists>r. minimax (Suc fuel) (origBoard s) p s = Inr (r, s)) \<and>
      (\<exists>i. bestSpot (Suc fuel) s = Inr (i, s))) \<and>
   (validBoard (board s) \<and> minimax n (origBoard s) p s = Inr (r', s') \<longrightarrow> s' = s) \<and>
   (inRange b s \<and> minimax n b p s = Inr (r', s') \<longrightarrow> s' = s)"
proof (intro conjI impI)
  assume a: "validBoard (board s) \<and> length (emptySquares s) \<le> fuel"
  then show "\<exists>r. minimax (Suc fuel) (origBoard s) p s = Inr (r, s)"
    using minimax_returns[of s fuel p] by blast
  from a minimax_returns[of s fuel aiPlayer]
  show "\<exists>i. bestSpot (Suc fuel) s = Inr (i, s)"
    by (auto simp: bestSpot_def simp del: minimax.simps)
next
  assume "validBoard (board s) \<and> minimax n (origBoard s) p s = Inr (r', s')"
  then show "s' = s"
    using frame_minimax[OF valid_inRange, of s n p r' s'] by blast
next
  assume "inRange b s \<and> minimax n b p s = Inr (r', s')"
  then show "s' = s"
    using frame_minimax[of b s n p r' s'] by blast
qed

theorem minimax_restores_board_witness:
  "validBoard (board (gameWith [Str ''X'', Str ''X'', Num 2, Str ''O'', Str ''O'', Str ''X'', Str ''X'', Str ''O'', Num 8])) \<and>
   length (emptySquares (gameWith [Str ''X'', Str ''X'', Num 2, Str ''O'', Str ''O'', Str ''X'', Str ''X'', Str ''O'', Num 8])) \<le> 2 \<and>
   minimax (Suc 2) 0 aiPlayer
     (gameWith [Str ''X'', Str ''X'', Num 2, Str ''O'', Str ''O'', Str ''X'', Str ''X'', Str ''O'', Num 8]) =
   Inr (\<lparr>index = Num 2, score = 0\<rparr>,
     gameWith [Str ''X'', Str ''X'', Num 2, Str ''O'', Str ''O'', Str ''X'', Str ''X'', Str ''O'', Num 8])"
  using minimax_restores_board[of
      "gameWith [Str ''X'', Str ''X'', Num 2, Str ''O'', Str ''O'', Str ''X'', Str ''X'', Str ''O'', Num 8]"
      2 aiPlayer]
  by (simp add: eval_defs validBoard_def numeral_2_eq_2)

section \<open>The encoding of the board and the array that emptySquares reads\<close>

text \<open>
  C9. The encoding of the board. \<open>startGame\<close> allocates the array of the numbers 0 to 8, which
  is a game board: nine cells, each holding its own index or the mark of a player. On a
  game board a cell holds a number exactly when it holds its own index (the cell is empty),
  and otherwise it holds X or O. Clicks and the AI's callbacks keep the board a game board,
  so every state reached from the loaded page has one, and so does a placement that
  \<open>minimax\<close> tries. For an available spot \<open>n\<close> the move that \<open>minimax\<close> records has the
  index \<open>n\<close>, and the undo step, which writes that recorded value back, restores the state.
  The result of \<open>minimax\<close> then names a cell \<open>m\<close> that is empty, and its score is the score
  of the position with the player's mark on cell \<open>m\<close>. This rests on the encoding: on
  \<open>brokenBoard\<close>, where two empty cells hold each other's number, \<open>minimax\<close> returns index
  1 with score 10, although a mark on cell 1 wins nothing and the winning mark is the one on
  cell 0.
\<close>

theorem board_representation:
  "board (startGame s0) = [Num 0, Num 1, Num 2, Num 3, Num 4, Num 5, Num 6, Num 7, Num 8] \<and>
   gameBoard (board (startGame s0)) \<and>
   (gameBoard a \<longrightarrow> length a = 9 \<and> validBoard a) \<and>
   (gameBoard a \<and> i < 9 \<longrightarrow>
      (typeof_number (a ! i) \<longleftrightarrow> a ! i = Num i) \<and>
      (\<not> typeof_number (a ! i) \<longrightarrow> a ! i = Str huPlayer \<or> a ! i = Str aiPlayer)) \<and>
   (gameBoard (board s) \<and> run fuel es s = Inr s' \<longrightarrow> gameBoard (board s')) \<and>
   (run fuel es pageLoad = Inr s' \<longrightarrow> gameBoard (board s')) \<and>
   (gameBoard (board s) \<and> n \<in> set (emptySquares s) \<and> (p = huPlayer \<or> p = aiPlayer) \<longrightarrow>
      gameBoard (board (store (origBoard s) n (Str p) s))) \<and>
   (validBoard (board s) \<and> n \<in> set (emptySquares s) \<longrightarrow>
      js_get (board s) n = Num n \<and>
      store (origBoard s) n (Num n) (store (origBoard s) n (Str p) s) = s) \<and>
   (validBoard (board s) \<and> minimax (Suc f) (origBoard s) p s = Inr (r, t) \<longrightarrow>
      t = s \<and>
      (index r = Undefined \<or>
       (\<exists>m < length (board s). index r = Num m \<and> board s ! m = Num m \<and>
          (\<exists>c. minimax f (origBoard s) (if p = aiPlayer then huPlayer else aiPlayer)
                 (store (origBoard s) m (Str p) s) = Inr (c, store (origBoard s) m (Str p) s) \<and>
               score r = score c)))) \<and>
   (\<not> validBoard brokenBoard \<and>
    minimax (Suc (Suc (Suc k))) 0 aiPlayer (gameWith brokenBoard) =
      Inr (\<lparr>index = Num 1, score = 10\<rparr>, gameWith brokenBoard) \<and>
    checkWin (winCombos pageLoad) (js_set brokenBoard 1 (Str aiPlayer)) aiPlayer = None \<and>
    checkWin (winCombos pageLoad) (js_set brokenBoard 0 (Str aiPlayer)) aiPlayer \<noteq> None)"
proof (intro conjI impI)
  show "board (startGame s0) = [Num 0, Num 1, Num 2, Num 3, Num 4, Num 5, Num 6, Num 7, Num 8]"
    by (rule board_startGame)
  show "gameBoard (board (startGame s0))"
    by (simp add: startGame_def board_def gameBoard_fresh)
next
  assume "gameBoard a"
  then show "length a = 9" and "validBoard a"
    by (simp_all add: gameBoard_iff gameBoard_valid)
next
  assume "gameBoard a \<and> i < 9"
  then have "a ! i = Num i \<or> a ! i = Str huPlayer \<or> a ! i = Str aiPlayer"
    by (simp add: gameBoard_iff)
  then show "typeof_number (a ! i) \<longleftrightarrow> a ! i = Num i"
    and "\<not> typeof_number (a ! i) \<Longrightarrow> a ! i = Str huPlayer \<or> a ! i = Str aiPlayer"
    by auto
next
  assume "gameBoard (board s) \<and> run fuel es s = Inr s'"
  then show "gameBoard (board s')" using run_gameBoard by blast
next
  assume "run fuel es pageLoad = Inr s'"
  moreover have "gameBoard (board pageLoad)"
    by (simp add: pageLoad_def startGame_def board_def gameBoard_fresh)
  ultimately show "gameBoard (board s')" by (rule run_gameBoard[rotated])
next
  assume a: "gameBoard (board s) \<and> n \<in> set (emptySquares s) \<and> (p = huPlayer \<or> p = aiPlayer)"
  then have "n < length (board s)"
    by (auto simp: emptySquares_def board_def valid_mem_numbers dest: gameBoard_valid)
  with a show "gameBoard (board (store (origBoard s) n (Str p) s))"
    by (simp add: gameBoard_update)
next
  assume a: "validBoard (board s) \<and> n \<in> set (emptySquares s)"
  then have lt: "n < length (heap s (origBoard s))" and num: "heap s (origBoard s) ! n = Num n"
    by (auto simp: emptySquares_def board_def valid_mem_numbers)
  then show g: "js_get (board s) n = Num n" by (simp add: js_get_def board_def)
  from store_restore[OF lt, of "Str p"] g
  show "store (origBoard s) n (Num n) (store (origBoard s) n (Str p) s) = s"
    by (simp add: board_def)
next
  assume a: "validBoard (board s) \<and> minimax (Suc f) (origBoard s) p s = Inr (r, t)"
  with minimax_index[of s f p r t]
  show "t = s"
    and "index r = Undefined \<or>
       (\<exists>m < length (board s). index r = Num m \<and> board s ! m = Num m \<and>
          (\<exists>c. minimax f (origBoard s) (if p = aiPlayer then huPlayer else aiPlayer)
                 (store (origBoard s) m (Str p) s) = Inr (c, store (origBoard s) m (Str p) s) \<and>
               score r = score c))"
    by blast+
qed (use broken_eval[of k] in blast)+

theorem board_representation_witness:
  "board pageLoad = [Num 0, Num 1, Num 2, Num 3, Num 4, Num 5, Num 6, Num 7, Num 8] \<and>
   gameBoard (board pageLoad) \<and>
   \<not> gameBoard [] \<and>
   \<not> gameBoard [Str ''Z'', Num 1, Num 2, Num 3, Num 4, Num 5, Num 6, Num 7, Num 8] \<and>
   gameBoard (board (gameWith [Str ''X'', Str ''X'', Num 2, Str ''O'', Str ''O'', Str ''X'', Str ''X'', Str ''O'', Num 8])) \<and>
   (\<exists>s. run 0 [Click 0, Click 1] pageLoad = Inr s \<and> gameBoard (board s)) \<and>
   8 \<in> set (emptySquares (gameWith [Str ''X'', Str ''X'', Num 2, Str ''O'', Str ''O'', Str ''X'', Str ''X'', Str ''O'', Num 8])) \<and>
   js_get (board (gameWith [Str ''X'', Str ''X'', Num 2, Str ''O'', Str ''O'', Str ''X'', Str ''X'', Str ''O'', Num 8])) 8 = Num 8 \<and>
   store 0 8 (Num 8) (store 0 8 (Str aiPlayer)
       (gameWith [Str ''X'', Str ''X'', Num 2, Str ''O'', Str ''O'', Str ''X'', Str ''X'', Str ''O'', Num 8])) =
     gameWith [Str ''X'', Str ''X'', Num 2, Str ''O'', Str ''O'', Str ''X'', Str ''X'', Str ''O'', Num 8]"
proof -
  let ?S = "gameWith [Str ''X'', Str ''X'', Num 2, Str ''O'', Str ''O'', Str ''X'', Str ''X'', Str ''O'', Num 8]"
  have o: "origBoard ?S = 0" by (simp add: eval_defs)
  have g: "gameBoard (board ?S)" by (simp add: eval_defs gameBoard_def)
  have e: "8 \<in> set (emptySquares ?S)" by (simp add: eval_defs)
  have n: "\<not> gameBoard []"
    "\<not> gameBoard [Str ''Z'', Num 1, Num 2, Num 3, Num 4, Num 5, Num 6, Num 7, Num 8]"
    by (simp_all add: gameBoard_def huPlayer_def aiPlayer_def)
  have p: "board pageLoad = [Num 0, Num 1, Num 2, Num 3, Num 4, Num 5, Num 6, Num 7, Num 8]"
    "gameBoard (board pageLoad)"
    unfolding pageLoad_def using board_representation by blast+
  obtain s where s: "run 0 [Click 0, Click 1] pageLoad = Inr s"
    by (simp add: eval_defs)
  from board_representation[where fuel = 0 and es = "[Click 0, Click 1]" and s' = s] s
  have r: "gameBoard (board s)" by blast
  from board_representation[where a = "board ?S"] g have v: "validBoard (board ?S)" by blast
  from board_representation[where s = ?S and n = 8 and p = aiPlayer] v e
  have "js_get (board ?S) 8 = Num 8 \<and>
    store (origBoard ?S) 8 (Num 8) (store (origBoard ?S) 8 (Str aiPlayer) ?S) = ?S"
    by blast
  with o g e n p s r show ?thesis by auto
qed

text \<open>
  C10. \<open>emptySquares\<close> reads the array of \<open>origBoard\<close> only: writing any array at another
  address does not change its result, and the candidates that \<open>minimax\<close> collects for an
  array reference \<open>b\<close> are the numbers of \<open>origBoard\<close>, one move for each. When the
  reference is \<open>origBoard\<close> itself (as \<open>bestSpot\<close> supplies) and the board is in the game's
  representation, \<open>minimax\<close> computes exactly \<open>evaluate\<close> of the board and returns the
  state unchanged. On an independent copy of the same contents it does not: for
  \<open>tieBoard\<close> the call on \<open>origBoard\<close> returns cell 8 with score 0, and the call on the
  copy does not return within any number of frames, since the list of available spots
  never shrinks.
\<close>

theorem emptySquares_ignores_argument:
  "(b \<noteq> origBoard s \<longrightarrow> emptySquares (s\<lparr>heap := (heap s)(b := a)\<rparr>) = emptySquares s) \<and>
   (checkWin (winCombos s) (heap s b) huPlayer = None \<and> checkWin (winCombos s) (heap s b) aiPlayer = None \<and>
    emptySquares s \<noteq> [] \<and> minimax (Suc fuel) b p s = Inr (r, s') \<longrightarrow>
      (\<exists>ms. collect (minimax fuel b) b p (emptySquares s) [] s = Inr (ms, s') \<and>
         length ms = length (emptySquares s) \<and> r \<in> set ms)) \<and>
   (validBoard (board s) \<longrightarrow>
      minimax fuel (origBoard s) p s = withState s (evaluate (winCombos s) fuel (board s) p)) \<and>
   (origBoard (withCopy tieBoard tieBoard) = 0 \<and>
    heap (withCopy tieBoard tieBoard) 0 = tieBoard \<and>
    heap (withCopy tieBoard tieBoard) (Suc 0) = tieBoard \<and>
    evaluate (winCombos pageLoad) (Suc (Suc k)) tieBoard aiPlayer = Inr \<lparr>index = Num 8, score = 0\<rparr> \<and>
    minimax (Suc (Suc k)) 0 aiPlayer (withCopy tieBoard tieBoard) =
      Inr (\<lparr>index = Num 8, score = 0\<rparr>, withCopy tieBoard tieBoard) \<and>
    minimax n (Suc 0) aiPlayer (withCopy tieBoard tieBoard) = Inl OutOfFuel \<and>
    minimax n (Suc 0) huPlayer (withCopy tieBoard tieBoard) = Inl OutOfFuel)"
proof (intro conjI impI)
  assume "b \<noteq> origBoard s"
  then show "emptySquares (s\<lparr>heap := (heap s)(b := a)\<rparr>) = emptySquares s"
    by (simp add: emptySquares_def)
next
  assume a: "checkWin (winCombos s) (heap s b) huPlayer = None \<and> checkWin (winCombos s) (heap s b) aiPlayer = None \<and>
    emptySquares s \<noteq> [] \<and> minimax (Suc fuel) b p s = Inr (r, s')"
  then obtain ms i where c: "collect (minimax fuel b) b p (emptySquares s) [] s = Inr (ms, s')"
    and i: "bestMove p ms = Some i" and r: "r = ms ! i"
    by (auto simp: Let_def split: sum.splits option.splits)
  from collect_length[OF c] have len: "length ms = length (emptySquares s)" by simp
  with a have "ms \<noteq> []" by auto
  from bestMove_Some[OF this, of p] i r have "r \<in> set ms" by auto
  with c len show "\<exists>ms. collect (minimax fuel b) b p (emptySquares s) [] s = Inr (ms, s') \<and>
      length ms = length (emptySquares s) \<and> r \<in> set ms"
    by blast
next
  assume "validBoard (board s)"
  then show "minimax fuel (origBoard s) p s = withState s (evaluate (winCombos s) fuel (board s) p)"
    by (rule minimax_refines)
next
  have v: "validBoard (board (withCopy tieBoard tieBoard))"
    using tie_eval[of 0] by (simp add: board_def)
  from minimax_refines[OF v, of "Suc (Suc k)" aiPlayer] tie_eval[of k]
  show "minimax (Suc (Suc k)) 0 aiPlayer (withCopy tieBoard tieBoard) =
      Inr (\<lparr>index = Num 8, score = 0\<rparr>, withCopy tieBoard tieBoard)"
    by (simp add: board_def del: minimax.simps evaluate.simps)
next
  show "minimax n (Suc 0) aiPlayer (withCopy tieBoard tieBoard) = Inl OutOfFuel"
    using copy_never_returns[of aiPlayer "Num 8" n] by (simp add: tie_copy_id)
next
  show "minimax n (Suc 0) huPlayer (withCopy tieBoard tieBoard) = Inl OutOfFuel"
    using copy_never_returns[of huPlayer "Num 8" n] by (simp add: tie_copy_id)
qed (use tie_eval[of k] in simp_all)

theorem emptySquares_ignores_argument_witness:
  "validBoard (board (gameWith [Str ''X'', Str ''X'', Num 2, Str ''O'', Str ''O'', Str ''X'', Str ''X'', Str ''O'', Num 8])) \<and>
   minimax (Suc 2) 0 aiPlayer
     (gameWith [Str ''X'', Str ''X'', Num 2, Str ''O'', Str ''O'', Str ''X'', Str ''X'', Str ''O'', Num 8]) =
   withState (gameWith [Str ''X'', Str ''X'', Num 2, Str ''O'', Str ''O'', Str ''X'', Str ''X'', Str ''O'', Num 8])
     (evaluate (winCombos pageLoad) (Suc 2) [Str ''X'', Str ''X'', Num 2, Str ''O'', Str ''O'', Str ''X'', Str ''X'', Str ''O'', Num 8] aiPlayer) \<and>
   evaluate (winCombos pageLoad) (Suc 2) [Str ''X'', Str ''X'', Num 2, Str ''O'', Str ''O'', Str ''X'', Str ''X'', Str ''O'', Num 8] aiPlayer =
     Inr \<lparr>index = Num 2, score = 0\<rparr> \<and>
   emptySquares (withCopy tieBoard [Str ''X'']) = emptySquares (gameWith tieBoard)"
  using emptySquares_ignores_argument[where
      s = "gameWith [Str ''X'', Str ''X'', Num 2, Str ''O'', Str ''O'', Str ''X'', Str ''X'', Str ''O'', Num 8]"
      and fuel = "Suc 2" and p = aiPlayer]
  by (simp add: eval_defs validBoard_def numeral_2_eq_2 withCopy_def tieBoard_def)

section \<open>The scenario of the specification\<close>

text \<open>
  C1. On the board X X 2 / O O 5 / 6 7 8 with the AI to move, \<open>bestSpot\<close> returns cell 2,
  for every stack depth of six frames or more, and leaves the game state as it was.
\<close>

theorem bestSpot_blocks_row0:
  "bestSpot (Suc (Suc (Suc (Suc (Suc (Suc k))))))
     (gameWith [Str ''X'', Str ''X'', Num 2, Str ''O'', Str ''O'', Num 5, Num 6, Num 7, Num 8]) =
   Inr (Num 2,
     gameWith [Str ''X'', Str ''X'', Num 2, Str ''O'', Str ''O'', Num 5, Num 6, Num 7, Num 8])"
  by (simp add: eval_defs)

end
